theory Spec2Isabelle
  imports Main "HOL-Library.Char_ord" "HOL-Library.List_Lexorder" "HOL-Library.Sublist"
    "HOL-Library.Multiset"
begin

section \<open>JavaScript strings and their primitives\<close>

text \<open>
  A JavaScript string is represented by the bytes of its UTF-8 encoding, as a
  \<^typ>\<open>string\<close>. The characters the middleware inspects (\<open>/\<close>, \<open>.\<close>, \<open>%\<close>, NUL)
  are ASCII, so prefix tests, splitting and joining agree with the code-unit view of
  the source.
\<close>

text \<open>
  The UTF-16 code units of a string, which the default order of
  \<open>Array.prototype.sort\<close> compares: a character of one, two or three bytes is one
  code unit, its code point; a character of four bytes is a pair of surrogates.
  Bytes that do not make up a character are taken one by one.
\<close>

fun utf16_units :: "string \<Rightarrow> int list" where
  "utf16_units [] = []"
| "utf16_units (a # s) =
     (if 240 \<le> (of_char a :: int) then
        (case s of
           b # c # d # rest \<Rightarrow>
             [55296 + ((of_char a - 240) * 262144 + (of_char b - 128) * 4096
                        + (of_char c - 128) * 64 + (of_char d - 128) - 65536) div 1024,
              56320 + ((of_char a - 240) * 262144 + (of_char b - 128) * 4096
                        + (of_char c - 128) * 64 + (of_char d - 128) - 65536) mod 1024]
             @ utf16_units rest
         | _ \<Rightarrow> of_char a # utf16_units s)
      else if 224 \<le> (of_char a :: int) then
        (case s of
           b # c # rest \<Rightarrow>
             ((of_char a - 224) * 4096 + (of_char b - 128) * 64 + (of_char c - 128))
             # utf16_units rest
         | _ \<Rightarrow> of_char a # utf16_units s)
      else if 192 \<le> (of_char a :: int) then
        (case s of
           b # rest \<Rightarrow> ((of_char a - 192) * 64 + (of_char b - 128)) # utf16_units rest
         | _ \<Rightarrow> of_char a # utf16_units s)
      else of_char a # utf16_units s)"

text \<open>\<open>s.split(c)\<close> for a one-character separator: \<open>''''.split('/')\<close> is \<open>['''']\<close>.\<close>

fun split_on :: "char \<Rightarrow> string \<Rightarrow> string list" where
  "split_on c [] = [[]]"
| "split_on c (x # xs) =
     (if x = c then [] # split_on c xs
      else (case split_on c xs of
              [] \<Rightarrow> [[x]]
            | w # ws \<Rightarrow> (x # w) # ws))"

text \<open>\<open>parts.join(sep)\<close>.\<close>

fun join_with :: "string \<Rightarrow> string list \<Rightarrow> string" where
  "join_with sep [] = []"
| "join_with sep [x] = x"
| "join_with sep (x # y # ys) = x @ sep @ join_with sep (y # ys)"

text \<open>\<open>String(n)\<close> for a natural number.\<close>

fun show_nat :: "nat \<Rightarrow> string" where
  "show_nat n =
     (if n < 10 then [char_of (48 + n)]
      else show_nat (n div 10) @ [char_of (48 + n mod 10)])"

subsection \<open>decodeURIComponent\<close>

datatype token = Lit char | Oct nat

definition hexval :: "char \<Rightarrow> nat option" where
  "hexval c =
     (let n = (of_char c :: nat) in
      if 48 \<le> n \<and> n \<le> 57 then Some (n - 48)
      else if 65 \<le> n \<and> n \<le> 70 then Some (n - 55)
      else if 97 \<le> n \<and> n \<le> 102 then Some (n - 87)
      else None)"

text \<open>
  Every \<open>%\<close> must be followed by two hexadecimal digits; \<open>None\<close> is the URIError
  the builtin throws otherwise.
\<close>

fun tokens :: "string \<Rightarrow> token list option" where
  "tokens [] = Some []"
| "tokens (c # s) =
     (if c = CHR ''%'' then
        (case s of
           h # l # rest \<Rightarrow>
             (case (hexval h, hexval l) of
                (Some a, Some b) \<Rightarrow> map_option ((#) (Oct (16 * a + b))) (tokens rest)
              | _ \<Rightarrow> None)
         | _ \<Rightarrow> None)
      else map_option ((#) (Lit c)) (tokens s))"

text \<open>The number of octets a leading octet announces.\<close>

definition utf8_length :: "nat \<Rightarrow> nat option" where
  "utf8_length b =
     (if b < 128 then Some 1
      else if b < 192 then None
      else if b < 224 then Some 2
      else if b < 240 then Some 3
      else if b < 248 then Some 4
      else None)"

text \<open>
  The octets of one escaped sequence encode a code point: no overlong form, no
  surrogate, nothing above U+10FFFF.
\<close>

definition utf8_wellformed :: "nat list \<Rightarrow> bool" where
  "utf8_wellformed bs =
     (case bs of
        [b] \<Rightarrow> b < 128
      | [b, c] \<Rightarrow> 194 \<le> b
      | [b, c, d] \<Rightarrow> (if b = 224 then 160 \<le> c else if b = 237 then c < 160 else True)
      | [b, c, d, e] \<Rightarrow>
          (if b = 240 then 144 \<le> c else if b = 244 then c < 144 else b < 244)
      | _ \<Rightarrow> False)"

text \<open>
  \<open>utf8_octets need cur ts\<close>: \<open>need\<close> continuation octets are still expected for the
  sequence \<open>cur\<close> read so far. A continuation octet must itself be escaped and lie in
  \<open>0x80..0xBF\<close>.
\<close>

fun utf8_octets :: "nat \<Rightarrow> nat list \<Rightarrow> token list \<Rightarrow> string option" where
  "utf8_octets need cur [] = (if need = 0 then Some [] else None)"
| "utf8_octets need cur (Lit c # ts) =
     (if need = 0 then map_option ((#) c) (utf8_octets 0 [] ts) else None)"
| "utf8_octets need cur (Oct b # ts) =
     (if need = 0 then
        (case utf8_length b of
           None \<Rightarrow> None
         | Some n \<Rightarrow>
             if n = 1 then map_option ((#) (char_of b)) (utf8_octets 0 [] ts)
             else utf8_octets (n - 1) [b] ts)
      else if 128 \<le> b \<and> b < 192 then
        (if need = 1 then
           (if utf8_wellformed (cur @ [b])
            then map_option ((@) (map char_of (cur @ [b]))) (utf8_octets 0 [] ts)
            else None)
         else utf8_octets (need - 1) (cur @ [b]) ts)
      else None)"

definition decodeURIComponent :: "string \<Rightarrow> string option" where
  "decodeURIComponent s =
     (case tokens s of None \<Rightarrow> None | Some ts \<Rightarrow> utf8_octets 0 [] ts)"

section \<open>The path library\<close>

text \<open>
  \<open>this.pathLib\<close> is \<open>opts.path\<close> or Node's \<open>path\<close> module. The operations the
  middleware calls are gathered in a record; \<open>posix\<close> below is Node's POSIX
  implementation, with the working directory of the process as a parameter.
\<close>

record pathlib =
  sep :: char
  normalize :: "string \<Rightarrow> string"
  join :: "string list \<Rightarrow> string"
  resolve :: "string list \<Rightarrow> string"
  extname :: "string \<Rightarrow> string"

text \<open>
  \<open>normalizeString\<close> of Node, on the segments between separators: empty segments and
  \<open>.\<close> are dropped, \<open>..\<close> removes the segment before it, or is kept when there is none
  to remove and the path may climb above its start. The accumulator holds the
  segments emitted so far, last first.
\<close>

fun normalizeSegs :: "bool \<Rightarrow> string list \<Rightarrow> string list \<Rightarrow> string list" where
  "normalizeSegs allowAboveRoot acc [] = rev acc"
| "normalizeSegs allowAboveRoot acc (s # ss) =
     (if s = [] \<or> s = ''.'' then normalizeSegs allowAboveRoot acc ss
      else if s = ''..'' then
        (case acc of
           [] \<Rightarrow> normalizeSegs allowAboveRoot (if allowAboveRoot then [''..''] else []) ss
         | a # as \<Rightarrow>
             if a = ''..''
             then normalizeSegs allowAboveRoot (if allowAboveRoot then ''..'' # acc else acc) ss
             else normalizeSegs allowAboveRoot as ss)
      else normalizeSegs allowAboveRoot (s # acc) ss)"

definition normalizeString :: "string \<Rightarrow> bool \<Rightarrow> string" where
  "normalizeString path allowAboveRoot =
     join_with ''/'' (normalizeSegs allowAboveRoot [] (split_on CHR ''/'' path))"

definition posix_normalize :: "string \<Rightarrow> string" where
  "posix_normalize path =
     (if path = [] then ''.''
      else
        let isAbsolute = (hd path = CHR ''/'');
            trailingSeparator = (last path = CHR ''/'');
            p = normalizeString path (\<not> isAbsolute)
        in if p = [] then
             (if isAbsolute then ''/'' else if trailingSeparator then ''./'' else ''.'')
           else (if isAbsolute then ''/'' else []) @ p
                  @ (if trailingSeparator then ''/'' else []))"

definition posix_join :: "string list \<Rightarrow> string" where
  "posix_join args =
     (let parts = filter (\<lambda>a. a \<noteq> []) args
      in if parts = [] then ''.'' else posix_normalize (join_with ''/'' parts))"

text \<open>
  \<open>resolve\<close> walks its arguments from the right, then the working directory, until
  the path built so far is absolute.
\<close>

fun resolve_loop :: "string list \<Rightarrow> string \<Rightarrow> string \<times> bool" where
  "resolve_loop [] resolvedPath = (resolvedPath, False)"
| "resolve_loop (p # ps) resolvedPath =
     (if p = [] then resolve_loop ps resolvedPath
      else if hd p = CHR ''/'' then (p @ ''/'' @ resolvedPath, True)
      else resolve_loop ps (p @ ''/'' @ resolvedPath))"

definition posix_resolve :: "string \<Rightarrow> string list \<Rightarrow> string" where
  "posix_resolve cwd args =
     (case resolve_loop (rev args @ [cwd]) [] of
        (resolvedPath, resolvedAbsolute) \<Rightarrow>
          let r = normalizeString resolvedPath (\<not> resolvedAbsolute)
          in if resolvedAbsolute then ''/'' @ r
             else if r \<noteq> [] then r else ''.'')"

text \<open>
  \<open>extname\<close>: from the last \<open>.\<close> of the last path component to its end; empty when
  there is no dot, when the only dot is the component's first character, and for \<open>..\<close>.
\<close>

definition basename_part :: "string \<Rightarrow> string" where
  "basename_part p =
     rev (takeWhile (\<lambda>c. c \<noteq> CHR ''/'') (dropWhile (\<lambda>c. c = CHR ''/'') (rev p)))"

definition posix_extname :: "string \<Rightarrow> string" where
  "posix_extname p =
     (let base = basename_part p;
          after = takeWhile (\<lambda>c. c \<noteq> CHR ''.'') (rev base)
      in if length after = length base then []
         else if length after + 1 = length base then []
         else if base = ''..'' then []
         else CHR ''.'' # rev after)"

definition posix :: "string \<Rightarrow> pathlib" where
  "posix cwd =
     \<lparr> sep = CHR ''/'',
       normalize = posix_normalize,
       join = posix_join,
       resolve = posix_resolve cwd,
       extname = posix_extname \<rparr>"

section \<open>Filesystem access objects\<close>

text \<open>
  An error of the filesystem carries its \<open>code\<close> (\<open>ENOENT\<close>, \<open>ENAMETOOLONG\<close>, ...).
  A callback \<open>(err, value)\<close> is a sum: \<open>Inl\<close> the error, \<open>Inr\<close> the value.
\<close>

record fs_error =
  code :: string
  message :: string

record stats =
  isDirectory :: bool
  st_size :: nat
  mtime :: "int option"

text \<open>
  The operations of an \<open>fs\<close>-compatible object. \<open>opts.fs\<close> configures one for the
  middleware; the \<open>fs\<close> module of the process is another.
\<close>

record filesystem =
  fs_stat :: "string \<Rightarrow> fs_error + stats"
  fs_readdir :: "string \<Rightarrow> fs_error + string list"
  fs_readFile :: "string \<Rightarrow> fs_error + string"
  fs_readFileSync :: "string \<Rightarrow> fs_error + string"

section \<open>Batch: bounded concurrency\<close>

text \<open>
  \<open>Batch\<close> is the \<open>batch\<close> package the middleware requires. Its \<open>end\<close> keeps the
  variables \<open>index\<close>, \<open>pending\<close>, \<open>results\<close> and \<open>done\<close> (here \<open>finished\<close>); the state
  below adds what an observer records: the lookups in flight (started, callback not
  yet invoked), the lookups started so far, and the invocations of the final callback.
  A pushed function is represented by the arguments \<open>(err, res)\<close> it will hand to its
  callback. \<open>results\<close> is a JavaScript array: \<open>None\<close> is a hole.
\<close>

record ('e, 'r) batch =
  index :: nat
  pending :: nat
  results :: "'r option list"
  finished :: bool
  inflight :: "nat list"
  started :: "nat list"
  calls :: "('e + 'r option list) list"

text \<open>\<open>xs[i] = v\<close> on a JavaScript array: writing past the end extends it with holes.\<close>

definition array_set :: "'a option list \<Rightarrow> nat \<Rightarrow> 'a \<Rightarrow> 'a option list" where
  "array_set xs i v =
     (if i < length xs then xs[i := Some v]
      else xs @ replicate (i - length xs) None @ [Some v])"

text \<open>\<open>xs[i]\<close>: \<open>None\<close> is \<open>undefined\<close>, read from a hole or past the end.\<close>

definition array_get :: "'a option list \<Rightarrow> nat \<Rightarrow> 'a option" where
  "array_get xs i = (if i < length xs then xs ! i else None)"

text \<open>\<open>next()\<close>: take the next index; start its function if there is one.\<close>

definition batch_next :: "nat \<Rightarrow> ('e, 'r) batch \<Rightarrow> ('e, 'r) batch" where
  "batch_next total_fns s =
     (let i = index s;
          s' = s\<lparr>index := i + 1\<rparr>
      in if i < total_fns
         then s'\<lparr>inflight := inflight s' @ [i], started := started s' @ [i]\<rparr>
         else s')"

text \<open>
  \<open>callback(err, res)\<close> of lookup \<open>i\<close>: ignored once \<open>done\<close>; an error sets \<open>done\<close> and
  is handed to the final callback; a result is stored at position \<open>i\<close>, and either the
  next lookup starts or, when nothing is pending, the final callback gets the results.
\<close>

definition batch_callback :: "('e + 'r) list \<Rightarrow> nat \<Rightarrow> ('e, 'r) batch \<Rightarrow> ('e, 'r) batch" where
  "batch_callback fns i s =
     (let s0 = s\<lparr>inflight := removeAll i (inflight s)\<rparr>
      in if finished s0 then s0
         else (case fns ! i of
                 Inl err \<Rightarrow> s0\<lparr>finished := True, calls := calls s0 @ [Inl err]\<rparr>
               | Inr res \<Rightarrow>
                   let s1 = s0\<lparr>results := array_set (results s0) i res,
                               pending := pending s0 - 1\<rparr>
                   in if pending s1 \<noteq> 0 then batch_next (length fns) s1
                      else s1\<lparr>calls := calls s1 @ [Inr (results s1)]\<rparr>))"

text \<open>
  \<open>end(cb)\<close> with concurrency \<open>n\<close>: an empty batch calls back with no results;
  otherwise the loop calls \<open>next()\<close> for \<open>i = 0, 1, ...\<close> and stops at \<open>i == n\<close>.
\<close>

definition batch_end :: "nat \<Rightarrow> ('e + 'r) list \<Rightarrow> ('e, 'r) batch" where
  "batch_end n fns =
     (let s0 = \<lparr>index = 0, pending = length fns, results = [], finished = False,
                inflight = [], started = [], calls = []\<rparr>
      in if fns = [] then s0\<lparr>calls := [Inr []]\<rparr>
         else (batch_next (length fns) ^^ (min (length fns) n)) s0)"

text \<open>
  The filesystem invokes the callbacks of the lookups in flight in an order of its
  choosing: \<open>order\<close> lists the lookups in the order their callbacks run. The
  filesystem calls back asynchronously, after the loop of \<open>end\<close>; an element of
  \<open>order\<close> that names no lookup in flight stands for no event.
\<close>

fun batch_run :: "('e + 'r) list \<Rightarrow> nat list \<Rightarrow> ('e, 'r) batch \<Rightarrow> ('e, 'r) batch" where
  "batch_run fns [] s = s"
| "batch_run fns (i # order) s =
     (if i \<in> set (inflight s) then batch_run fns order (batch_callback fns i s)
      else batch_run fns order s)"

text \<open>
  A complete order from a state: the callback of the oldest lookup in flight runs
  next, for at most \<open>fuel\<close> callbacks.
\<close>

fun fifo_order :: "('e + 'r) list \<Rightarrow> nat \<Rightarrow> ('e, 'r) batch \<Rightarrow> nat list" where
  "fifo_order fns 0 s = []"
| "fifo_order fns (Suc fuel) s =
     (case inflight s of
        [] \<Rightarrow> []
      | i # _ \<Rightarrow> i # fifo_order fns fuel (batch_callback fns i s))"

section \<open>statFiles\<close>

text \<open>
  One pushed function per file: \<open>filesystem.stat(join(dir, file), ...)\<close>; an error
  other than \<open>ENOENT\<close> is passed on, \<open>ENOENT\<close> becomes the result \<open>null\<close> (\<open>None\<close>).
\<close>

definition stat_fn :: "pathlib \<Rightarrow> filesystem \<Rightarrow> string \<Rightarrow> string \<Rightarrow> fs_error + stats option" where
  "stat_fn lib fs dir file =
     (case fs_stat fs (join lib [dir, file]) of
        Inl err \<Rightarrow> if code err \<noteq> ''ENOENT'' then Inl err else Inr None
      | Inr st \<Rightarrow> Inr (Some st))"

definition stat_fns ::
  "pathlib \<Rightarrow> filesystem \<Rightarrow> string \<Rightarrow> string list \<Rightarrow> (fs_error + stats option) list" where
  "stat_fns lib fs dir files = map (stat_fn lib fs dir) files"

text \<open>The state of the batch of \<open>statFiles\<close> after the callbacks of \<open>order\<close>.\<close>

definition statFiles_state ::
  "pathlib \<Rightarrow> string \<Rightarrow> string list \<Rightarrow> filesystem \<Rightarrow> nat list
     \<Rightarrow> (fs_error, stats option) batch" where
  "statFiles_state lib dir files fs order =
     batch_run (stat_fns lib fs dir files) order (batch_end 10 (stat_fns lib fs dir files))"

text \<open>
  What \<open>statFiles\<close> hands to \<open>cb\<close>: \<open>None\<close> while \<open>cb\<close> has not been invoked.
\<close>

definition statFiles ::
  "pathlib \<Rightarrow> string \<Rightarrow> string list \<Rightarrow> filesystem \<Rightarrow> nat list
     \<Rightarrow> (fs_error + stats option option list) option" where
  "statFiles lib dir files fs order =
     (case calls (statFiles_state lib dir files fs order) of
        [] \<Rightarrow> None
      | r # _ \<Rightarrow> Some r)"

section \<open>Sorting the file list\<close>

text \<open>
  An element of the file list: a name and its metadata, which is a \<open>Stats\<close> object
  or \<open>null\<close> (\<open>None\<close>), since \<open>statFiles\<close> passes on \<open>stat || null\<close>.
\<close>

record entry =
  name :: string
  stat :: "stats option"

text \<open>
  Locale-dependent primitives and the module's surroundings are parameters:
  \<open>String.prototype.toLocaleLowerCase\<close> and \<open>localeCompare\<close>, the date formats,
  \<open>mime.lookup\<close>, \<open>__dirname\<close>, and the \<open>path\<close> and \<open>fs\<close> modules of the process.
\<close>

record env =
  toLocaleLowerCase :: "string \<Rightarrow> string"
  localeCompare :: "string \<Rightarrow> string \<Rightarrow> int"
  toLocaleDateString :: "int \<Rightarrow> string"
  toLocaleTimeString :: "int \<Rightarrow> string"
  mime_lookup :: "string \<Rightarrow> string option"
  dirname :: string
  nativePathLib :: pathlib
  native_fs :: filesystem

text \<open>\<open>Number(x.stat && x.stat.isDirectory())\<close>: 1 for a directory, 0 for \<open>null\<close> or a file.\<close>

definition dir_number :: "entry \<Rightarrow> int" where
  "dir_number x = (case stat x of None \<Rightarrow> 0 | Some st \<Rightarrow> if isDirectory st then 1 else 0)"

definition fileSort :: "env \<Rightarrow> entry \<Rightarrow> entry \<Rightarrow> int" where
  "fileSort e a b =
     (if name a = ''..'' \<or> name b = ''..'' then
        (if name a = name b then 0 else if name a = ''..'' then - 1 else 1)
      else
        let d = dir_number b - dir_number a
        in if d \<noteq> 0 then d
           else localeCompare e (toLocaleLowerCase e (name a)) (toLocaleLowerCase e (name b)))"

text \<open>
  \<open>Array.prototype.sort\<close> with a comparison function is stable: an element goes
  before the first element of the sorted rest that it does not compare greater than.
\<close>

fun insert_by :: "('a \<Rightarrow> 'a \<Rightarrow> int) \<Rightarrow> 'a \<Rightarrow> 'a list \<Rightarrow> 'a list" where
  "insert_by cmp x [] = [x]"
| "insert_by cmp x (y # ys) =
     (if cmp x y \<le> 0 then x # y # ys else y # insert_by cmp x ys)"

definition sort_by :: "('a \<Rightarrow> 'a \<Rightarrow> int) \<Rightarrow> 'a list \<Rightarrow> 'a list" where
  "sort_by cmp xs = foldr (insert_by cmp) xs []"

section \<open>Rendering\<close>

subsection \<open>Escaping\<close>

text \<open>\<open>escapeHtml\<close> of the \<open>escape-html\<close> package.\<close>

definition escapeHtml :: "string \<Rightarrow> string" where
  "escapeHtml s =
     concat (map (\<lambda>c.
       if c = CHR 0x22 then ''&quot;''
       else if c = CHR ''&'' then ''&amp;''
       else if c = CHR 0x27 then ''&#39;''
       else if c = CHR ''<'' then ''&lt;''
       else if c = CHR ''>'' then ''&gt;''
       else [c]) s)"

definition hexdigit :: "nat \<Rightarrow> char" where
  "hexdigit n = (if n < 10 then char_of (48 + n) else char_of (55 + n))"

definition unreserved :: "char \<Rightarrow> bool" where
  "unreserved c =
     (let n = (of_char c :: nat) in
      (48 \<le> n \<and> n \<le> 57) \<or> (65 \<le> n \<and> n \<le> 90) \<or> (97 \<le> n \<and> n \<le> 122)
      \<or> c \<in> set [CHR ''-'', CHR ''_'', CHR ''.'', CHR ''!'', CHR ''~'', CHR ''*'',
                   CHR 0x27, CHR ''('', CHR '')''])"

definition encodeURIComponent :: "string \<Rightarrow> string" where
  "encodeURIComponent s =
     concat (map (\<lambda>c.
       if unreserved c then [c]
       else [CHR ''%'', hexdigit (of_char c div 16), hexdigit (of_char c mod 16)]) s)"

subsection \<open>String.prototype.replace with a global pattern\<close>

text \<open>
  The replacement text is expanded for every match: \<open>$$\<close> is a dollar sign, \<open>$&\<close>
  the match, \<open>$`\<close> the text before it and \<open>$'\<close> the text after it. The patterns of
  the template have no capture groups, so any other \<open>$\<close> stands for itself.
\<close>

fun expand_replacement :: "string \<Rightarrow> string \<Rightarrow> string \<Rightarrow> string \<Rightarrow> string" where
  "expand_replacement matched preceding following [] = []"
| "expand_replacement matched preceding following [c] = [c]"
| "expand_replacement matched preceding following (c # d # r) =
     (if c = CHR ''$'' \<and> d = CHR ''$'' then CHR ''$'' # expand_replacement matched preceding following r
      else if c = CHR ''$'' \<and> d = CHR ''&'' then matched @ expand_replacement matched preceding following r
      else if c = CHR ''$'' \<and> d = CHR 0x60 then preceding @ expand_replacement matched preceding following r
      else if c = CHR ''$'' \<and> d = CHR 0x27 then following @ expand_replacement matched preceding following r
      else c # expand_replacement matched preceding following (d # r))"

text \<open>
  \<open>replace_from pat repl k pre s\<close>: \<open>pre\<close> is the text already passed, last character
  first; the next \<open>k\<close> characters belong to a match already replaced.
\<close>

fun replace_from :: "string \<Rightarrow> string \<Rightarrow> nat \<Rightarrow> string \<Rightarrow> string \<Rightarrow> string" where
  "replace_from pat repl k pre [] = []"
| "replace_from pat repl k pre (c # s) =
     (if 0 < k then replace_from pat repl (k - 1) (c # pre) s
      else if pat \<noteq> [] \<and> take (length pat) (c # s) = pat then
        expand_replacement pat (rev pre) (drop (length pat) (c # s)) repl
          @ replace_from pat repl (length pat - 1) (c # pre) s
      else c # replace_from pat repl 0 (c # pre) s)"

definition replace_all :: "string \<Rightarrow> string \<Rightarrow> string \<Rightarrow> string" where
  "replace_all pat repl str = replace_from pat repl 0 [] str"

subsection \<open>Icons\<close>

definition icons_table :: "(string \<times> string) list" where
  "icons_table = [
    (''default'', ''page_white.png''),
    (''folder'', ''folder.png''),
    (''font'', ''font.png''),
    (''image'', ''image.png''),
    (''text'', ''page_white_text.png''),
    (''video'', ''film.png''),
    (''+json'', ''page_white_code.png''),
    (''+xml'', ''page_white_code.png''),
    (''+zip'', ''box.png''),
    (''application/javascript'', ''page_white_code_red.png''),
    (''application/json'', ''page_white_code.png''),
    (''application/msword'', ''page_white_word.png''),
    (''application/pdf'', ''page_white_acrobat.png''),
    (''application/postscript'', ''page_white_vector.png''),
    (''application/rtf'', ''page_white_word.png''),
    (''application/vnd.ms-excel'', ''page_white_excel.png''),
    (''application/vnd.ms-powerpoint'', ''page_white_powerpoint.png''),
    (''application/vnd.oasis.opendocument.presentation'', ''page_white_powerpoint.png''),
    (''application/vnd.oasis.opendocument.spreadsheet'', ''page_white_excel.png''),
    (''application/vnd.oasis.opendocument.text'', ''page_white_word.png''),
    (''application/x-7z-compressed'', ''box.png''),
    (''application/x-sh'', ''application_xp_terminal.png''),
    (''application/x-msaccess'', ''page_white_database.png''),
    (''application/x-shockwave-flash'', ''page_white_flash.png''),
    (''application/x-sql'', ''page_white_database.png''),
    (''application/x-tar'', ''box.png''),
    (''application/x-xz'', ''box.png''),
    (''application/xml'', ''page_white_code.png''),
    (''application/zip'', ''box.png''),
    (''image/svg+xml'', ''page_white_vector.png''),
    (''text/css'', ''page_white_code.png''),
    (''text/html'', ''page_white_code.png''),
    (''text/less'', ''page_white_code.png''),
    (''.accdb'', ''page_white_database.png''),
    (''.apk'', ''box.png''),
    (''.app'', ''application_xp.png''),
    (''.as'', ''page_white_actionscript.png''),
    (''.asp'', ''page_white_code.png''),
    (''.aspx'', ''page_white_code.png''),
    (''.bat'', ''application_xp_terminal.png''),
    (''.bz2'', ''box.png''),
    (''.c'', ''page_white_c.png''),
    (''.cab'', ''box.png''),
    (''.cfm'', ''page_white_coldfusion.png''),
    (''.clj'', ''page_white_code.png''),
    (''.cc'', ''page_white_cplusplus.png''),
    (''.cgi'', ''application_xp_terminal.png''),
    (''.cpp'', ''page_white_cplusplus.png''),
    (''.cs'', ''page_white_csharp.png''),
    (''.db'', ''page_white_database.png''),
    (''.dbf'', ''page_white_database.png''),
    (''.deb'', ''box.png''),
    (''.dll'', ''page_white_gear.png''),
    (''.dmg'', ''drive.png''),
    (''.docx'', ''page_white_word.png''),
    (''.erb'', ''page_white_ruby.png''),
    (''.exe'', ''application_xp.png''),
    (''.fnt'', ''font.png''),
    (''.gam'', ''controller.png''),
    (''.gz'', ''box.png''),
    (''.h'', ''page_white_h.png''),
    (''.ini'', ''page_white_gear.png''),
    (''.iso'', ''cd.png''),
    (''.jar'', ''box.png''),
    (''.java'', ''page_white_cup.png''),
    (''.jsp'', ''page_white_cup.png''),
    (''.lua'', ''page_white_code.png''),
    (''.lz'', ''box.png''),
    (''.lzma'', ''box.png''),
    (''.m'', ''page_white_code.png''),
    (''.map'', ''map.png''),
    (''.msi'', ''box.png''),
    (''.mv4'', ''film.png''),
    (''.pdb'', ''page_white_database.png''),
    (''.php'', ''page_white_php.png''),
    (''.pl'', ''page_white_code.png''),
    (''.pkg'', ''box.png''),
    (''.pptx'', ''page_white_powerpoint.png''),
    (''.psd'', ''page_white_picture.png''),
    (''.py'', ''page_white_code.png''),
    (''.rar'', ''box.png''),
    (''.rb'', ''page_white_ruby.png''),
    (''.rm'', ''film.png''),
    (''.rom'', ''controller.png''),
    (''.rpm'', ''box.png''),
    (''.sass'', ''page_white_code.png''),
    (''.sav'', ''controller.png''),
    (''.scss'', ''page_white_code.png''),
    (''.srt'', ''page_white_text.png''),
    (''.tbz2'', ''box.png''),
    (''.tgz'', ''box.png''),
    (''.tlz'', ''box.png''),
    (''.vb'', ''page_white_code.png''),
    (''.vbs'', ''page_white_code.png''),
    (''.xcf'', ''page_white_picture.png''),
    (''.xlsx'', ''page_white_excel.png''),
    (''.yaws'', ''page_white_code.png'')
  ]"

definition icons :: "string \<Rightarrow> string option" where
  "icons key = map_of icons_table key"

text \<open>\<open>icons.default\<close> and \<open>icons.folder\<close>.\<close>

definition icons_default :: string where
  "icons_default = ''page_white.png''"

definition icons_folder :: string where
  "icons_folder = ''folder.png''"

record icon =
  className :: string
  fileName :: string

text \<open>\<open>s.replace('/', '-')\<close>: the first occurrence only.\<close>

fun replace_first :: "char \<Rightarrow> char \<Rightarrow> string \<Rightarrow> string" where
  "replace_first a b [] = []"
| "replace_first a b (c # s) = (if c = a then b # s else c # replace_first a b s)"

definition iconLookup :: "env \<Rightarrow> pathlib \<Rightarrow> string \<Rightarrow> icon" where
  "iconLookup e lib filename =
     (let ext = extname lib filename in
      case icons ext of
        Some f \<Rightarrow> \<lparr>className = ''icon-'' @ drop 1 ext, fileName = f\<rparr>
      | None \<Rightarrow>
          (case mime_lookup e ext of
             None \<Rightarrow> \<lparr>className = ''icon-default'', fileName = icons_default\<rparr>
           | Some mimetype \<Rightarrow>
               (case icons mimetype of
                  Some f \<Rightarrow>
                    \<lparr>className = ''icon-'' @ replace_first CHR ''/'' CHR ''-'' mimetype,
                     fileName = f\<rparr>
                | None \<Rightarrow>
                    let suffix = (case split_on CHR ''+'' mimetype of
                                    _ # x # _ \<Rightarrow> x
                                  | _ \<Rightarrow> [])
                    in case (if suffix \<noteq> [] then icons (''+'' @ suffix) else None) of
                         Some f \<Rightarrow> \<lparr>className = ''icon-'' @ suffix, fileName = f\<rparr>
                       | None \<Rightarrow>
                           let type = hd (split_on CHR ''/'' mimetype)
                           in (case icons type of
                                 Some f \<Rightarrow> \<lparr>className = ''icon-'' @ type, fileName = f\<rparr>
                               | None \<Rightarrow>
                                   \<lparr>className = ''icon-default'',
                                    fileName = icons_default\<rparr>))))"

text \<open>
  \<open>load\<close>: the process-wide cache of icon data, read through to the \<open>fs\<close> module of
  the process. \<open>readFileSync\<close> throws its error (\<open>Inl\<close>). An empty cached string is
  falsy and is read again.
\<close>

type_synonym cache = "string \<Rightarrow> string option"

definition read_icon :: "env \<Rightarrow> cache \<Rightarrow> string \<Rightarrow> (fs_error + string) \<times> cache" where
  "read_icon e cache icon =
     (case fs_readFileSync (native_fs e) (dirname e @ ''/public/icons/'' @ icon) of
        Inl err \<Rightarrow> (Inl err, cache)
      | Inr data \<Rightarrow> (Inr data, cache(icon \<mapsto> data)))"

definition load :: "env \<Rightarrow> cache \<Rightarrow> string \<Rightarrow> (fs_error + string) \<times> cache" where
  "load e cache icon =
     (case cache icon of
        Some v \<Rightarrow> if v \<noteq> [] then (Inr v, cache) else read_icon e cache icon
      | None \<Rightarrow> read_icon e cache icon)"

definition isDir :: "entry \<Rightarrow> bool" where
  "isDir file = (case stat file of None \<Rightarrow> False | Some st \<Rightarrow> isDirectory st)"

text \<open>
  The loop of \<open>iconStyle\<close>. \<open>rules\<close> holds, in the order of \<open>list\<close>, each icon name
  with its rule and its selectors. An error thrown by \<open>load\<close> leaves the loop.
\<close>

definition add_selector ::
  "string \<Rightarrow> string \<Rightarrow> (string \<times> string \<times> string list) list
     \<Rightarrow> (string \<times> string \<times> string list) list" where
  "add_selector iconName selector rules =
     map (\<lambda>(n, rule, sels).
            if n = iconName \<and> selector \<notin> set sels then (n, rule, sels @ [selector])
            else (n, rule, sels)) rules"

fun iconStyle_loop ::
  "env \<Rightarrow> pathlib \<Rightarrow> entry list \<Rightarrow> (string \<times> string \<times> string list) list \<Rightarrow> cache
     \<Rightarrow> (fs_error + (string \<times> string \<times> string list) list) \<times> cache" where
  "iconStyle_loop e lib [] rules cache = (Inr rules, cache)"
| "iconStyle_loop e lib (file # files) rules cache =
     (let icon = (if isDir file
                  then \<lparr>className = ''icon-directory'', fileName = icons_folder\<rparr>
                  else iconLookup e lib (name file));
          iconName = fileName icon;
          selector = ''#files .'' @ className icon @ '' .name''
      in case map_of rules iconName of
           Some _ \<Rightarrow> iconStyle_loop e lib files (add_selector iconName selector rules) cache
         | None \<Rightarrow>
             (case load e cache iconName of
                (Inl err, cache') \<Rightarrow> (Inl err, cache')
              | (Inr data, cache') \<Rightarrow>
                  iconStyle_loop e lib files
                    (add_selector iconName selector
                       (rules @ [(iconName,
                          ''background-image: url(data:image/png;base64,'' @ data @ '');'',
                          [])]))
                    cache'))"

definition iconStyle ::
  "env \<Rightarrow> pathlib \<Rightarrow> entry list \<Rightarrow> bool \<Rightarrow> cache \<Rightarrow> (fs_error + string) \<times> cache" where
  "iconStyle e lib files useIcons cache =
     (if \<not> useIcons then (Inr [], cache)
      else (case iconStyle_loop e lib files [] cache of
              (Inl err, cache') \<Rightarrow> (Inl err, cache')
            | (Inr rules, cache') \<Rightarrow>
                (Inr (concat (map (\<lambda>(n, rule, sels).
                        join_with [CHR '','', CHR 0x0A] sels
                          @ '' {'' @ [CHR 0x0A] @ ''  '' @ rule @ [CHR 0x0A] @ ''}''
                          @ [CHR 0x0A])
                      rules)), cache')))"

subsection \<open>The HTML of the listing\<close>

definition normalizeSlashes :: "pathlib \<Rightarrow> string \<Rightarrow> string" where
  "normalizeSlashes lib path = join_with ''/'' (split_on (sep lib) path)"

definition htmlPath :: "string \<Rightarrow> string" where
  \<open>htmlPath dir =
     (let parts = split_on CHR ''/'' dir;
          crumb = map (\<lambda>i.
                    let part = parts ! i
                    in if part \<noteq> [] then
                         ''<a href="''
                           @ escapeHtml (join_with ''/''
                               (map encodeURIComponent (take (i + 1) parts)))
                           @ ''">'' @ escapeHtml part @ ''</a>''
                       else []) [0..<length parts]
      in join_with '' / '' crumb)\<close>

definition file_classes :: "env \<Rightarrow> pathlib \<Rightarrow> entry \<Rightarrow> bool \<Rightarrow> string list" where
  "file_classes e lib file useIcons =
     (if useIcons then
        (if isDir file then [''icon'', ''icon-directory'']
         else
           let ext = extname lib (name file);
               icon = iconLookup e lib (name file);
               classes = [''icon'', ''icon'', ''icon-'' @ drop 1 ext]
           in if className icon \<in> set classes then classes
              else classes @ [className icon])
      else [])"

definition file_date :: "env \<Rightarrow> entry \<Rightarrow> string" where
  "file_date e file =
     (case stat file of
        None \<Rightarrow> []
      | Some st \<Rightarrow>
          (case mtime st of
             None \<Rightarrow> []
           | Some t \<Rightarrow>
               if name file \<noteq> ''..''
               then toLocaleDateString e t @ '' '' @ toLocaleTimeString e t
               else []))"

definition file_size :: "entry \<Rightarrow> string" where
  "file_size file =
     (case stat file of
        None \<Rightarrow> []
      | Some st \<Rightarrow> if \<not> isDirectory st then show_nat (st_size st) else [])"

definition file_item :: "env \<Rightarrow> pathlib \<Rightarrow> string \<Rightarrow> bool \<Rightarrow> entry \<Rightarrow> string" where
  \<open>file_item e lib dir useIcons file =
     (let path = map encodeURIComponent (split_on CHR ''/'' dir)
                   @ [encodeURIComponent (name file)]
      in ''<li><a href="''
           @ escapeHtml (normalizeSlashes lib (normalize lib (join_with ''/'' path)))
           @ ''" class="'' @ escapeHtml (join_with '' '' (file_classes e lib file useIcons))
           @ ''"''
           @ '' title="'' @ escapeHtml (name file) @ ''">''
           @ ''<span class="name">'' @ escapeHtml (name file) @ ''</span>''
           @ ''<span class="size">'' @ escapeHtml (file_size file) @ ''</span>''
           @ ''<span class="date">'' @ escapeHtml (file_date e file) @ ''</span>''
           @ ''</a></li>'')\<close>

definition createHtmlFileList ::
  "env \<Rightarrow> pathlib \<Rightarrow> entry list \<Rightarrow> string \<Rightarrow> bool \<Rightarrow> string \<Rightarrow> string" where
  \<open>createHtmlFileList e lib files dir useIcons view =
     ''<ul id="files" class="view-'' @ escapeHtml view @ ''">''
       @ (if view = ''details'' then
            ''<li class="header">''
              @ ''<span class="name">Name</span>''
              @ ''<span class="size">Size</span>''
              @ ''<span class="date">Modified</span>''
              @ ''</li>''
          else [])
       @ join_with [CHR 0x0A] (map (file_item e lib dir useIcons) files)
       @ ''</ul>''\<close>

section \<open>Responses\<close>

text \<open>
  What reaches \<open>next\<close>: \<open>createError(status)\<close>, an error of the filesystem (with the
  \<open>status\<close> the middleware has set on it, if any), or the error of a custom render
  function.
\<close>

datatype error = HttpError nat | FsError fs_error "nat option" | RenderError string

datatype exn = URIError | TypeError | Uncaught fs_error

record locals =
  directory :: string
  displayIcons :: bool
  fileList :: "entry list"
  path :: string
  style :: string
  viewName :: string

datatype template = TemplatePath string | TemplateFunction "locals \<Rightarrow> error + string"

datatype media_type = TextHtml | TextPlain | ApplicationJson

text \<open>
  The effect of the middleware on one request: it ends the response without a body
  (\<open>Ended\<close>: status code and headers), sends a body with \<open>send\<close> (\<open>Sent\<close>: headers and
  body), calls \<open>next\<close>, throws, hands over to a custom handler, or is still waiting
  for callbacks of the filesystem.
\<close>

datatype 'h outcome =
    Ended nat "(string \<times> string) list"
  | Sent "(string \<times> string) list" string
  | Next "error option"
  | Thrown exn
  | Custom 'h
  | Waiting

definition send :: "string \<Rightarrow> string \<Rightarrow> 'h outcome" where
  "send type body =
     Sent [(''X-Content-Type-Options'', ''nosniff''),
           (''Content-Type'', type @ ''; charset=utf-8''),
           (''Content-Length'', show_nat (length body))] body"

subsection \<open>JSON.stringify on an array of strings\<close>

definition hexlower :: "nat \<Rightarrow> char" where
  "hexlower n = (if n < 10 then char_of (48 + n) else char_of (87 + n))"

definition json_char :: "char \<Rightarrow> string" where
  "json_char c =
     (let n = (of_char c :: nat) in
      if c = CHR 0x22 then [CHR 0x5C, CHR 0x22]
      else if c = CHR 0x5C then [CHR 0x5C, CHR 0x5C]
      else if n = 8 then [CHR 0x5C, CHR ''b'']
      else if n = 12 then [CHR 0x5C, CHR ''f'']
      else if n = 10 then [CHR 0x5C, CHR ''n'']
      else if n = 13 then [CHR 0x5C, CHR ''r'']
      else if n = 9 then [CHR 0x5C, CHR ''t'']
      else if n < 32 then
        [CHR 0x5C, CHR ''u'', CHR ''0'', CHR ''0'', hexlower (n div 16), hexlower (n mod 16)]
      else [c])"

definition json_quote :: "string \<Rightarrow> string" where
  "json_quote s = [CHR 0x22] @ concat (map json_char s) @ [CHR 0x22]"

definition JSON_stringify :: "string list \<Rightarrow> string" where
  "JSON_stringify files = ''['' @ join_with '','' (map json_quote files) @ '']''"

section \<open>The handlers of the three representations\<close>

definition json :: "string list \<Rightarrow> 'h outcome" where
  "json files = send ''application/json'' (JSON_stringify files)"

definition plain :: "string list \<Rightarrow> 'h outcome" where
  "plain files = send ''text/plain'' (join_with [CHR 0x0A] files @ [CHR 0x0A])"

text \<open>
  \<open>createHtmlRender(template)\<close> applied to \<open>locals\<close>: the template is read through the
  \<open>fs\<close> module of the process; \<open>iconStyle\<close> is evaluated first and may throw (outer
  \<open>Inl\<close>); otherwise the callback gets an error or the body.
\<close>

definition createHtmlRender ::
  "env \<Rightarrow> pathlib \<Rightarrow> string \<Rightarrow> locals \<Rightarrow> cache \<Rightarrow> (fs_error + (error + string)) \<times> cache" where
  "createHtmlRender e lib template_path locals cache =
     (case fs_readFile (native_fs e) template_path of
        Inl err \<Rightarrow> (Inr (Inl (FsError err None)), cache)
      | Inr str \<Rightarrow>
          (case iconStyle e lib (fileList locals) (displayIcons locals) cache of
             (Inl err, cache') \<Rightarrow> (Inl err, cache')
           | (Inr css, cache') \<Rightarrow>
               (Inr (Inr
                  (replace_all ''{linked-path}'' (htmlPath (directory locals))
                    (replace_all ''{directory}'' (escapeHtml (directory locals))
                      (replace_all ''{files}''
                         (createHtmlFileList e lib (fileList locals) (directory locals)
                            (displayIcons locals) (viewName locals))
                        (replace_all ''{style}'' (style locals @ css) str))))),
                cache')))"

text \<open>
  \<open>files.map(function (file, i) { return {name: file, stat: stats[i]} })\<close>. A hole
  of \<open>stats\<close> would read as \<open>undefined\<close>; the array \<open>statFiles\<close> delivers has none.
\<close>

definition combine_stats :: "string list \<Rightarrow> stats option option list \<Rightarrow> entry list" where
  "combine_stats files stats =
     map (\<lambda>(file, i).
            \<lparr>name = file,
             stat = (case array_get stats i of Some v \<Rightarrow> v | None \<Rightarrow> None)\<rparr>)
         (zip files [0..<length files])"

text \<open>
  The built-in handler of \<open>text/html\<close>. \<open>order\<close> is the order in which the filesystem
  answers the lookups of \<open>statFiles\<close>. The stylesheet is read through the \<open>fs\<close> module
  of the process.
\<close>

definition html ::
  "env \<Rightarrow> pathlib \<Rightarrow> string list \<Rightarrow> string \<Rightarrow> bool \<Rightarrow> bool \<Rightarrow> string \<Rightarrow> string \<Rightarrow> template
     \<Rightarrow> string \<Rightarrow> filesystem \<Rightarrow> nat list \<Rightarrow> cache \<Rightarrow> 'h outcome \<times> cache" where
  "html e lib files dir showUp icons_flag pth view tmpl stylesheet filesystem order cache =
     (let files' = (if showUp then ''..'' # files else files) in
      case statFiles lib pth files' filesystem order of
        None \<Rightarrow> (Waiting, cache)
      | Some (Inl err) \<Rightarrow> (Next (Some (FsError err None)), cache)
      | Some (Inr stats) \<Rightarrow>
          let sorted_list = sort_by (fileSort e) (combine_stats files' stats) in
          (case fs_readFile (native_fs e) stylesheet of
             Inl err \<Rightarrow> (Next (Some (FsError err None)), cache)
           | Inr style_text \<Rightarrow>
               let render_locals = \<lparr>directory = dir, displayIcons = icons_flag,
                                     fileList = sorted_list, path = pth,
                                     style = style_text, viewName = view\<rparr>
               in (case tmpl of
                     TemplateFunction render \<Rightarrow>
                       (case render render_locals of
                          Inl err \<Rightarrow> (Next (Some err), cache)
                        | Inr body \<Rightarrow> (send ''text/html'' body, cache))
                   | TemplatePath template_path \<Rightarrow>
                       (case createHtmlRender e lib template_path render_locals cache of
                          (Inl thrown, cache') \<Rightarrow> (Thrown (Uncaught thrown), cache')
                        | (Inr (Inl err), cache') \<Rightarrow> (Next (Some err), cache')
                        | (Inr (Inr body), cache') \<Rightarrow> (send ''text/html'' body, cache')))))"

section \<open>The middleware\<close>

record serve_index =
  pathLib :: pathlib
  rootPath :: string
  filter_opt :: "(string \<Rightarrow> nat \<Rightarrow> string list \<Rightarrow> string \<Rightarrow> bool) option"
  hidden :: bool
  showIcons :: bool
  stylesheet :: string
  template :: template
  view :: string
  filesystem :: filesystem

record options =
  opt_path :: "pathlib option"
  opt_filter :: "(string \<Rightarrow> nat \<Rightarrow> string list \<Rightarrow> string \<Rightarrow> bool) option"
  opt_hidden :: bool
  opt_icons :: bool
  opt_stylesheet :: "string option"
  opt_template :: "template option"
  opt_view :: "string option"
  opt_fs :: "filesystem option"

text \<open>\<open>x || fallback\<close> on an optional string: absent and empty are both falsy.\<close>

definition or_default :: "string option \<Rightarrow> string \<Rightarrow> string" where
  "or_default x fallback =
     (case x of None \<Rightarrow> fallback | Some v \<Rightarrow> if v = [] then fallback else v)"

definition defaultTemplate :: "env \<Rightarrow> string" where
  "defaultTemplate e = join (nativePathLib e) [dirname e, ''public'', ''directory.html'']"

definition defaultStylesheet :: "env \<Rightarrow> string" where
  "defaultStylesheet e = join (nativePathLib e) [dirname e, ''public'', ''style.css'']"

text \<open>The constructor: a falsy \<open>root\<close> throws a TypeError.\<close>

definition ServeIndex :: "env \<Rightarrow> string \<Rightarrow> options \<Rightarrow> exn + serve_index" where
  "ServeIndex e root opts =
     (if root = [] then Inl TypeError
      else
        let lib = (case opt_path opts of None \<Rightarrow> nativePathLib e | Some l \<Rightarrow> l)
        in Inr \<lparr>pathLib = lib,
                 rootPath = normalize lib (resolve lib [root] @ [sep lib]),
                 filter_opt = opt_filter opts,
                 hidden = opt_hidden opts,
                 showIcons = opt_icons opts,
                 stylesheet = or_default (opt_stylesheet opts) (defaultStylesheet e),
                 template = (case opt_template opts of
                               None \<Rightarrow> TemplatePath (defaultTemplate e)
                             | Some (TemplatePath p) \<Rightarrow>
                                 TemplatePath (if p = [] then defaultTemplate e else p)
                             | Some (TemplateFunction f) \<Rightarrow> TemplateFunction f),
                 view = or_default (opt_view opts) ''tiles'',
                 filesystem = (case opt_fs opts of None \<Rightarrow> native_fs e | Some f \<Rightarrow> f)\<rparr>)"

text \<open>
  A request, as the middleware reads it: the method, \<open>parseUrl(req).pathname\<close>,
  \<open>parseUrl.original(req).pathname\<close>, and the entry of \<open>mediaTypes\<close> that
  \<open>accepts(req).type(mediaTypes)\<close> selects: \<open>text/html\<close>, \<open>text/plain\<close> or
  \<open>application/json\<close>, which the table \<open>mediaType\<close> maps to the handlers \<open>html\<close>,
  \<open>plain\<close> and \<open>json\<close> (\<open>None\<close>: none is acceptable).
\<close>

record request =
  req_method :: string
  url_pathname :: string
  original_pathname :: string
  accept_type :: "media_type option"

text \<open>
  The arguments a handler is called with, after \<open>req\<close>, \<open>res\<close> and \<open>next\<close>. The
  custom handlers \<open>serveIndex.html\<close>, \<open>serveIndex.plain\<close> and \<open>serveIndex.json\<close> are
  \<open>null\<close> unless overridden; what an override does with its arguments is a value of
  type \<open>'h\<close>.
\<close>

record handler_args =
  arg_files :: "string list"
  arg_dir :: string
  arg_showUp :: bool
  arg_displayIcons :: bool
  arg_path :: string
  arg_view :: string
  arg_template :: template
  arg_stylesheet :: string
  arg_filesystem :: filesystem

definition removeHidden :: "string list \<Rightarrow> string list" where
  "removeHidden files =
     filter (\<lambda>file. case file of [] \<Rightarrow> True | c # _ \<Rightarrow> c \<noteq> CHR ''.'') files"

text \<open>\<open>files.filter(function (filename, index, list) { ... })\<close> with the configured filter.\<close>

definition apply_filter ::
  "(string \<Rightarrow> nat \<Rightarrow> string list \<Rightarrow> string \<Rightarrow> bool) \<Rightarrow> string \<Rightarrow> string list \<Rightarrow> string list" where
  "apply_filter f pth files =
     map fst (filter (\<lambda>(filename, i). f filename i files pth)
                (zip files [0..<length files]))"

text \<open>The three steps of \<open>serve\<close> on the decoded path.\<close>

definition request_path :: "serve_index \<Rightarrow> string \<Rightarrow> string" where
  "request_path self dir =
     normalize (pathLib self) (join (pathLib self) [rootPath self, dir])"

definition malicious :: "serve_index \<Rightarrow> string \<Rightarrow> bool" where
  "malicious self pth =
     (take (length (rootPath self)) (pth @ [sep (pathLib self)]) \<noteq> rootPath self)"

definition showUp_of :: "serve_index \<Rightarrow> string \<Rightarrow> bool" where
  "showUp_of self pth =
     (normalize (pathLib self) (resolve (pathLib self) [pth] @ [sep (pathLib self)])
        \<noteq> rootPath self)"

text \<open>
  The entry names after \<open>readdir\<close>: hidden files removed, filtered, and sorted by
  \<open>files.sort()\<close>, which is stable and compares the names by their code units.
\<close>

definition listing :: "serve_index \<Rightarrow> string \<Rightarrow> string list \<Rightarrow> string list" where
  "listing self pth files =
     (let files1 = (if \<not> hidden self then removeHidden files else files);
          files2 = (case filter_opt self of
                      None \<Rightarrow> files1
                    | Some f \<Rightarrow> apply_filter f pth files1)
      in sort_key utf16_units files2)"

text \<open>
  Content negotiation and dispatch: a custom handler takes precedence over the
  built-in one.
\<close>

definition dispatch ::
  "env \<Rightarrow> (media_type \<Rightarrow> (handler_args \<Rightarrow> 'h) option) \<Rightarrow> serve_index \<Rightarrow> request
     \<Rightarrow> string list \<Rightarrow> string \<Rightarrow> bool \<Rightarrow> string \<Rightarrow> nat list \<Rightarrow> cache \<Rightarrow> 'h outcome \<times> cache" where
  "dispatch e custom self req files originalDir showUp pth order cache =
     (case accept_type req of
        None \<Rightarrow> (Next (Some (HttpError 406)), cache)
      | Some type \<Rightarrow>
          (case custom type of
             Some handler \<Rightarrow>
               (Custom (handler \<lparr>arg_files = files, arg_dir = originalDir,
                                  arg_showUp = showUp, arg_displayIcons = showIcons self,
                                  arg_path = pth, arg_view = view self,
                                  arg_template = template self,
                                  arg_stylesheet = stylesheet self,
                                  arg_filesystem = filesystem self\<rparr>), cache)
           | None \<Rightarrow>
               (case type of
                  TextHtml \<Rightarrow>
                    html e (pathLib self) files originalDir showUp (showIcons self) pth
                      (view self) (template self) (stylesheet self) (filesystem self)
                      order cache
                | TextPlain \<Rightarrow> (plain files, cache)
                | ApplicationJson \<Rightarrow> (json files, cache))))"

text \<open>
  \<open>serve(req, res, next)\<close>. \<open>custom\<close> holds the custom handlers, \<open>order\<close> the order
  in which the filesystem answers the lookups of \<open>statFiles\<close>, \<open>cache\<close> the icon cache
  of the process, which is returned as the request leaves it.
\<close>

definition serve ::
  "env \<Rightarrow> (media_type \<Rightarrow> (handler_args \<Rightarrow> 'h) option) \<Rightarrow> serve_index \<Rightarrow> request
     \<Rightarrow> nat list \<Rightarrow> cache \<Rightarrow> 'h outcome \<times> cache" where
  "serve e custom self req order cache =
     (if req_method req \<noteq> ''GET'' \<and> req_method req \<noteq> ''HEAD'' then
        (Ended (if req_method req = ''OPTIONS'' then 200 else 405)
           [(''Allow'', ''GET, HEAD, OPTIONS''), (''Content-Length'', ''0'')], cache)
      else
        case decodeURIComponent (url_pathname req) of
          None \<Rightarrow> (Thrown URIError, cache)
        | Some dir \<Rightarrow>
            (case decodeURIComponent (original_pathname req) of
               None \<Rightarrow> (Thrown URIError, cache)
             | Some originalDir \<Rightarrow>
                 let pth = request_path self dir in
                 if CHR 0x00 \<in> set pth then (Next (Some (HttpError 400)), cache)
                 else if malicious self pth then (Next (Some (HttpError 403)), cache)
                 else
                   let showUp = showUp_of self pth in
                   (case fs_stat (filesystem self) pth of
                      Inl err \<Rightarrow>
                        if code err = ''ENOENT'' then (Next None, cache)
                        else (Next (Some (FsError err
                                (Some (if code err = ''ENAMETOOLONG'' then 414 else 500)))),
                              cache)
                    | Inr st \<Rightarrow>
                        if \<not> isDirectory st then (Next None, cache)
                        else
                          (case fs_readdir (filesystem self) pth of
                             Inl err \<Rightarrow> (Next (Some (FsError err None)), cache)
                           | Inr files \<Rightarrow>
                               dispatch e custom self req (listing self pth files)
                                 originalDir showUp pth order cache))))"

section \<open>Notions used in the statements\<close>

text \<open>
  A segment of a resolved path: not empty, not \<open>.\<close>, not \<open>..\<close>, and free of the
  separator.
\<close>

definition clean_seg :: "string \<Rightarrow> bool" where
  "clean_seg s = (s \<noteq> [] \<and> s \<noteq> ''.'' \<and> s \<noteq> ''..'' \<and> CHR ''/'' \<notin> set s)"

text \<open>
  A consistent comparison function, as \<open>Array.prototype.sort\<close> expects one: the sign
  of \<open>cmp a b\<close> is opposite to the sign of \<open>cmp b a\<close>, and \<open>\<le> 0\<close> is transitive.
\<close>

definition consistent_compare :: "('a \<Rightarrow> 'a \<Rightarrow> int) \<Rightarrow> bool" where
  "consistent_compare cmp =
     ((\<forall>a b. (cmp a b < 0) = (0 < cmp b a))
      \<and> (\<forall>a b c. cmp a b \<le> 0 \<and> cmp b c \<le> 0 \<longrightarrow> cmp a c \<le> 0))"

text \<open>The three groups of \<open>fileSort\<close>: the parent entry, directories, the rest.\<close>

definition rank :: "entry \<Rightarrow> nat" where
  "rank x = (if name x = ''..'' then 0 else if isDir x then 1 else 2)"

text \<open>
  A reader of what \<open>JSON.stringify\<close> writes for an array of strings: the JSON
  grammar of an array of strings without white space. Inside a string a control
  character is not allowed unescaped; an escape \<open>\\uXXXX\<close> is read when it
  denotes an ASCII character. The reader keeps the characters of the string it is
  in (\<open>cur\<close>) and the strings it has read (\<open>acc\<close>).
\<close>

datatype json_state =
  Start | ItemOrEnd | ExpectItem | InString | Escape | Hex nat nat | AfterItem | Done

definition unescape :: "char \<Rightarrow> char option" where
  "unescape c =
     (if c = CHR 0x22 \<or> c = CHR 0x5C \<or> c = CHR ''/'' then Some c
      else if c = CHR ''b'' then Some (char_of (8 :: nat))
      else if c = CHR ''f'' then Some (char_of (12 :: nat))
      else if c = CHR ''n'' then Some (char_of (10 :: nat))
      else if c = CHR ''r'' then Some (char_of (13 :: nat))
      else if c = CHR ''t'' then Some (char_of (9 :: nat))
      else None)"

fun json_run :: "json_state \<Rightarrow> string \<Rightarrow> string list \<Rightarrow> string \<Rightarrow> string list option" where
  "json_run st cur acc [] = (if st = Done then Some acc else None)"
| "json_run Start cur acc (c # s) =
     (if c = CHR ''['' then json_run ItemOrEnd [] acc s else None)"
| "json_run ItemOrEnd cur acc (c # s) =
     (if c = CHR '']'' then json_run Done [] acc s
      else if c = CHR 0x22 then json_run InString [] acc s
      else None)"
| "json_run ExpectItem cur acc (c # s) =
     (if c = CHR 0x22 then json_run InString [] acc s else None)"
| "json_run InString cur acc (c # s) =
     (if c = CHR 0x22 then json_run AfterItem [] (acc @ [cur]) s
      else if c = CHR 0x5C then json_run Escape cur acc s
      else if (of_char c :: nat) < 32 then None
      else json_run InString (cur @ [c]) acc s)"
| "json_run Escape cur acc (c # s) =
     (if c = CHR ''u'' then json_run (Hex 0 0) cur acc s
      else (case unescape c of
              None \<Rightarrow> None
            | Some ch \<Rightarrow> json_run InString (cur @ [ch]) acc s))"
| "json_run (Hex k v) cur acc (c # s) =
     (case hexval c of
        None \<Rightarrow> None
      | Some d \<Rightarrow>
          if k = 3 then
            (if 16 * v + d < 128 then json_run InString (cur @ [char_of (16 * v + d)]) acc s
             else None)
          else json_run (Hex (k + 1) (16 * v + d)) cur acc s)"
| "json_run AfterItem cur acc (c # s) =
     (if c = CHR '','' then json_run ExpectItem [] acc s
      else if c = CHR '']'' then json_run Done [] acc s
      else None)"
| "json_run Done cur acc (c # s) = None"

definition json_parse :: "string \<Rightarrow> string list option" where
  "json_parse body = json_run Start [] [] body"

text \<open>
  What holds of the batch in every state it can reach. The lookups started are the
  first \<open>min index N\<close> entries, in order; those in flight are among them, each once,
  and at most \<open>n\<close>. After an error (\<open>finished\<close>) the final callback has received that
  error, once. Before, every answered lookup has its result at its own position and
  no other position is filled, \<open>pending\<close> counts the lookups not yet answered, all
  \<open>n\<close> slots are taken while an entry waits, and the final callback has been
  invoked, with the results, exactly if nothing is pending.
\<close>

definition batch_inv :: "('e + 'r) list \<Rightarrow> nat \<Rightarrow> ('e, 'r) batch \<Rightarrow> bool" where
  "batch_inv fns n s =
     (started s = [0..<min (index s) (length fns)]
      \<and> distinct (inflight s)
      \<and> set (inflight s) \<subseteq> set (started s)
      \<and> length (inflight s) \<le> n
      \<and> length (calls s) \<le> 1
      \<and> (finished s \<longrightarrow> (\<exists>i err. i < length fns \<and> fns ! i = Inl err \<and> calls s = [Inl err]))
      \<and> (\<not> finished s \<longrightarrow>
            (\<forall>i. i \<in> set (started s) \<and> i \<notin> set (inflight s)
                  \<longrightarrow> (\<exists>r. fns ! i = Inr r \<and> array_get (results s) i = Some r))
          \<and> (\<forall>i. \<not> (i \<in> set (started s) \<and> i \<notin> set (inflight s))
                  \<longrightarrow> array_get (results s) i = None)
          \<and> pending s + length (started s) = length fns + length (inflight s)
          \<and> min n (length fns) \<le> index s
          \<and> (index s < length fns \<longrightarrow> length (inflight s) = min n (length fns))
          \<and> length (results s) \<le> length fns
          \<and> (if pending s = 0 then calls s = [Inr (results s)] else calls s = [])))"

text \<open>A bound on the callbacks still to come.\<close>

definition batch_measure :: "('e + 'r) list \<Rightarrow> ('e, 'r) batch \<Rightarrow> nat" where
  "batch_measure fns s = length (inflight s) + (length fns - min (index s) (length fns))"

text \<open>
  A lookup of \<open>statFiles\<close> fails if \<open>stat\<close> gives an error other than \<open>ENOENT\<close>; the
  metadata of an entry is what \<open>stat\<close> gives, \<open>null\<close> (\<open>None\<close>) when it gives an error.
\<close>

definition lookup_fails :: "pathlib \<Rightarrow> filesystem \<Rightarrow> string \<Rightarrow> string \<Rightarrow> bool" where
  "lookup_fails lib fs dir file =
     (case fs_stat fs (join lib [dir, file]) of
        Inl err \<Rightarrow> code err \<noteq> ''ENOENT''
      | Inr st \<Rightarrow> False)"

definition metadata :: "pathlib \<Rightarrow> filesystem \<Rightarrow> string \<Rightarrow> string \<Rightarrow> stats option" where
  "metadata lib fs dir file =
     (case fs_stat fs (join lib [dir, file]) of
        Inl err \<Rightarrow> None
      | Inr st \<Rightarrow> Some st)"


section \<open>A sample site\<close>

text \<open>
  The root \<open>/srv/www\<close> holds the directory \<open>A\<close> and the file \<open>b.txt\<close>, the directory
  \<open>docs\<close> (a hidden file, a file and a directory), the directory \<open>pub\<close> (a file that
  sorts before a directory), and two entries whose lookup fails.
\<close>

definition enoent :: fs_error where
  "enoent = \<lparr>code = ''ENOENT'', message = ''no such file or directory''\<rparr>"

definition enametoolong :: fs_error where
  "enametoolong = \<lparr>code = ''ENAMETOOLONG'', message = ''name too long''\<rparr>"

definition eacces :: fs_error where
  "eacces = \<lparr>code = ''EACCES'', message = ''permission denied''\<rparr>"

definition dir_stats :: stats where
  "dir_stats = \<lparr>isDirectory = True, st_size = 4096, mtime = Some 0\<rparr>"

definition file_stats :: "nat \<Rightarrow> stats" where
  "file_stats n = \<lparr>isDirectory = False, st_size = n, mtime = Some 0\<rparr>"

definition sample_stat :: "string \<Rightarrow> fs_error + stats" where
  "sample_stat p =
     (if p \<in> set [''/srv/www/'', ''/srv/www'', ''/srv/www/A'', ''/srv/www/docs/'',
                   ''/srv/www/docs'', ''/srv/www/docs/img'', ''/srv/www/pub/'',
                   ''/srv/www/pub'', ''/srv/www/pub/zeta''] then Inr dir_stats
      else if p = ''/srv/www/b.txt'' then Inr (file_stats 5)
      else if p = ''/srv/www/docs/notes.txt'' then Inr (file_stats 12)
      else if p = ''/srv/www/docs/.secret'' then Inr (file_stats 3)
      else if p = ''/srv/www/pub/alpha.txt'' then Inr (file_stats 7)
      else if p = ''/srv/www/long'' then Inl enametoolong
      else if p = ''/srv/www/locked'' then Inl eacces
      else Inl enoent)"

definition sample_readdir :: "string \<Rightarrow> fs_error + string list" where
  "sample_readdir p =
     (if p = ''/srv/www/'' then Inr [''b.txt'', ''A'']
      else if p = ''/srv/www/docs/'' then Inr [''.secret'', ''notes.txt'', ''img'']
      else if p = ''/srv/www/pub/'' then Inr [''zeta'', ''alpha.txt'']
      else Inl enoent)"

definition sample_fs :: filesystem where
  "sample_fs =
     \<lparr>fs_stat = sample_stat, fs_readdir = sample_readdir,
      fs_readFile = (\<lambda>p. Inl enoent), fs_readFileSync = (\<lambda>p. Inl enoent)\<rparr>"

text \<open>
  Two more objects over the same tree. The \<open>readdir\<close> of the first lists the parent
  entry, which the \<open>readdir\<close> of Node leaves out and a configured object need not.
  The second has a file whose name holds a newline.
\<close>

definition dotted_fs :: filesystem where
  "dotted_fs =
     \<lparr>fs_stat = sample_stat, fs_readdir = (\<lambda>p. Inr [''..'', ''a.txt'']),
      fs_readFile = (\<lambda>p. Inl enoent), fs_readFileSync = (\<lambda>p. Inl enoent)\<rparr>"

definition newline_fs :: filesystem where
  "newline_fs =
     \<lparr>fs_stat = sample_stat, fs_readdir = (\<lambda>p. Inr [''x'' @ CHR 0x0A # ''..'']),
      fs_readFile = (\<lambda>p. Inl enoent), fs_readFileSync = (\<lambda>p. Inl enoent)\<rparr>"


definition sample_native :: filesystem where
  "sample_native =
     \<lparr>fs_stat = (\<lambda>p. Inl enoent), fs_readdir = (\<lambda>p. Inl enoent),
      fs_readFile =
        (\<lambda>p. if p = ''/app/public/style.css'' then Inr ''body{}''
              else if p = ''/app/public/directory.html''
              then Inr ''<style>{style}</style>{linked-path}{files}''
              else Inl enoent),
      fs_readFileSync = (\<lambda>p. Inr ''QUJD'')\<rparr>"

text \<open>A comparison of strings by their bytes stands for \<open>localeCompare\<close>.\<close>

definition byte_compare :: "string \<Rightarrow> string \<Rightarrow> int" where
  "byte_compare a b = (if a < b then - 1 else if a = b then 0 else 1)"

definition sample_env :: env where
  "sample_env =
     \<lparr>toLocaleLowerCase = (\<lambda>s. s), localeCompare = byte_compare,
      toLocaleDateString = (\<lambda>t. ''1/1/1970''), toLocaleTimeString = (\<lambda>t. ''12:00:00 AM''),
      mime_lookup = (\<lambda>ext. if ext = ''.txt'' then Some ''text/plain'' else None),
      dirname = ''/app'', nativePathLib = posix ''/home/u'', native_fs = sample_native\<rparr>"

definition sample_options :: options where
  "sample_options =
     \<lparr>opt_path = None, opt_filter = None, opt_hidden = False, opt_icons = True,
      opt_stylesheet = None, opt_template = None, opt_view = None,
      opt_fs = Some sample_fs\<rparr>"

definition sample_site :: serve_index where
  "sample_site =
     \<lparr>pathLib = posix ''/home/u'', rootPath = ''/srv/www/'', filter_opt = None,
      hidden = False, showIcons = True, stylesheet = ''/app/public/style.css'',
      template = TemplatePath ''/app/public/directory.html'', view = ''tiles'',
      filesystem = sample_fs\<rparr>"

definition no_custom :: "media_type \<Rightarrow> (handler_args \<Rightarrow> unit) option" where
  "no_custom = (\<lambda>_. None)"

definition get_request :: "string \<Rightarrow> media_type \<Rightarrow> request" where
  "get_request p t =
     \<lparr>req_method = ''GET'', url_pathname = p, original_pathname = p,
      accept_type = Some t\<rparr>"

text \<open>Entries in an order no sort would leave them in; two of them share a name.\<close>

definition sample_entries :: "entry list" where
  "sample_entries =
     [\<lparr>name = ''notes.txt'', stat = Some (file_stats 12)\<rparr>,
      \<lparr>name = ''img'', stat = Some dir_stats\<rparr>,
      \<lparr>name = ''gone'', stat = None\<rparr>,
      \<lparr>name = ''..'', stat = Some dir_stats\<rparr>,
      \<lparr>name = ''notes.txt'', stat = Some (file_stats 99)\<rparr>]"

text \<open>
  Names for the root: eleven of which the first cannot be looked up, and twelve
  that all can.
\<close>

definition crowded_files :: "string list" where
  "crowded_files =
     [''locked'', ''a'', ''b'', ''c'', ''d'', ''e'', ''f'', ''g'', ''h'', ''i'', ''j'']"

definition twelve_files :: "string list" where
  "twelve_files =
     [''A'', ''b.txt'', ''c'', ''d'', ''docs'', ''e'', ''f'', ''g'', ''h'', ''i'', ''pub'', ''z'']"

section \<open>Path resolution and the first lookup\<close>

lemma tokens_bad_escape:
  "hexval h = None \<or> hexval l = None \<Longrightarrow> tokens (a @ CHR ''%'' # h # l # b) = None"
proof (induction a rule: tokens.induct)
  case 1
  then show ?case by (auto split: option.splits)
next
  case (2 c s)
  show ?case
  proof (cases "c = CHR ''%''")
    case False
    with 2 show ?thesis by simp
  next
    case True
    have pc: "hexval CHR ''%'' = None" by (simp add: hexval_def)
    show ?thesis
    proof (cases s)
      case Nil
      with True pc show ?thesis by simp
    next
      case (Cons x s')
      show ?thesis
      proof (cases s')
        case Nil
        with True Cons pc show ?thesis by (simp split: option.splits)
      next
        case (Cons y s'')
        with True \<open>s = x # s'\<close> 2 show ?thesis
          by (auto split: option.splits)
      qed
    qed
  qed
qed

lemma decode_bad_escape:
  "hexval h = None \<or> hexval l = None
     \<Longrightarrow> decodeURIComponent (a @ CHR ''%'' # h # l # b) = None"
  by (simp add: decodeURIComponent_def tokens_bad_escape)

lemma malicious_prefix:
  "malicious self pth = (\<not> prefix (rootPath self) (pth @ [sep (pathLib self)]))"
  unfolding malicious_def by (metis prefix_def append_eq_conv_conj take_is_prefix)

text \<open>
  Claim C8. A GET or HEAD request whose pathname contains an invalid escape, a \<open>%\<close>
  followed by two characters that are not both hexadecimal digits (such as \<open>%zz\<close>),
  makes \<open>serve\<close> throw a URIError from \<open>decodeURIComponent\<close>: nothing is sent,
  \<open>next\<close> is not called, and the outcome is the same for every filesystem, so no
  lookup has taken place.
\<close>

theorem serve_invalid_escape_throws:
  assumes "req_method req = ''GET'' \<or> req_method req = ''HEAD''"
    and "url_pathname req = a @ CHR ''%'' # h # l # b"
    and "hexval h = None \<or> hexval l = None"
  shows "decodeURIComponent (url_pathname req) = None
         \<and> serve e custom self req order cache = (Thrown URIError, cache)"
proof -
  have "decodeURIComponent (url_pathname req) = None"
    unfolding assms(2) by (rule decode_bad_escape [OF assms(3)])
  with assms(1) show ?thesis unfolding serve_def by auto
qed

theorem serve_invalid_escape_throws_witness:
  "serve sample_env no_custom sample_site (get_request ''/%zz'' TextHtml) [] Map.empty
     = (Thrown URIError, Map.empty)"
proof -
  have m: "req_method (get_request ''/%zz'' TextHtml) = ''GET''
             \<or> req_method (get_request ''/%zz'' TextHtml) = ''HEAD''"
    by (simp add: get_request_def)
  have u: "url_pathname (get_request ''/%zz'' TextHtml)
             = ''/'' @ CHR ''%'' # CHR ''z'' # CHR ''z'' # []"
    by (simp add: get_request_def)
  have z: "hexval CHR ''z'' = None \<or> hexval CHR ''z'' = None"
    by (simp add: hexval_def)
  show ?thesis
    by (rule serve_invalid_escape_throws [OF m u z, THEN conjunct2])
qed

text \<open>A NUL byte in the normalized path is answered with 400, before any other test.\<close>

lemma nul_byte_is_400:
  assumes "req_method req = ''GET'' \<or> req_method req = ''HEAD''"
    and "decodeURIComponent (url_pathname req) = Some dir"
    and "decodeURIComponent (original_pathname req) = Some originalDir"
    and "CHR 0x00 \<in> set (request_path self dir)"
  shows "serve e custom self req order cache = (Next (Some (HttpError 400)), cache)"
  using assms unfolding serve_def by auto

text \<open>
  Claim C1, as the code has it. For a GET or HEAD request whose pathnames decode and
  whose normalized path holds no NUL byte: if the root path is not a prefix of the
  normalized path plus separator, \<open>next\<close> gets the error 403. The test of the code is
  this prefix comparison.
\<close>

theorem escaped_root_is_403:
  assumes "req_method req = ''GET'' \<or> req_method req = ''HEAD''"
    and "decodeURIComponent (url_pathname req) = Some dir"
    and "decodeURIComponent (original_pathname req) = Some originalDir"
    and "CHR 0x00 \<notin> set (request_path self dir)"
    and "\<not> prefix (rootPath self) (request_path self dir @ [sep (pathLib self)])"
  shows "serve e custom self req order cache = (Next (Some (HttpError 403)), cache)
         \<and> malicious self (request_path self dir)"
proof -
  have "malicious self (request_path self dir)"
    using assms(5) by (simp add: malicious_prefix)
  with assms(1-4) show ?thesis unfolding serve_def by auto
qed

theorem escaped_root_is_403_witness:
  "serve sample_env no_custom sample_site (get_request ''/../../etc/passwd'' TextHtml) []
     Map.empty = (Next (Some (HttpError 403)), Map.empty)
   \<and> request_path sample_site ''/../../etc/passwd'' = ''/etc/passwd''"
proof -
  let ?req = "get_request ''/../../etc/passwd'' TextHtml"
  have m: "req_method ?req = ''GET'' \<or> req_method ?req = ''HEAD''"
    by (simp add: get_request_def)
  have d: "decodeURIComponent (url_pathname ?req) = Some ''/../../etc/passwd''"
    by code_simp
  have d': "decodeURIComponent (original_pathname ?req) = Some ''/../../etc/passwd''"
    by code_simp
  have p: "request_path sample_site ''/../../etc/passwd'' = ''/etc/passwd''"
    by code_simp
  have n: "CHR 0x00 \<notin> set (request_path sample_site ''/../../etc/passwd'')"
    unfolding p by simp
  have x: "\<not> prefix (rootPath sample_site)
             (request_path sample_site ''/../../etc/passwd'' @ [sep (pathLib sample_site)])"
    by code_simp
  show ?thesis
    using escaped_root_is_403 [OF m d d' n x, where e = sample_env and custom = no_custom
        and order = "[]" and cache = Map.empty] p
    by simp
qed

text \<open>
  Claim C1 as stated fails: the decoded path \<open>/../../etc/pass\\0wd\<close> resolves outside
  the root \<open>/srv/www\<close>, and the request is answered with 400, not 403.
\<close>

theorem escaped_root_with_NUL_is_400:
  "decodeURIComponent ''/../../etc/pass%00wd'' = Some (''/../../etc/pass'' @ CHR 0x00 # ''wd'')
   \<and> malicious sample_site
        (request_path sample_site (''/../../etc/pass'' @ CHR 0x00 # ''wd''))
   \<and> fst (serve sample_env no_custom sample_site
             (get_request ''/../../etc/pass%00wd'' TextHtml) [] Map.empty)
       = Next (Some (HttpError 400))"
  by code_simp

text \<open>
  Claim C5. Once the path has passed the checks, the outcome of the lookup decides:
  \<open>ENOENT\<close> and a path that is not a directory call \<open>next()\<close> with no error;
  \<open>ENAMETOOLONG\<close> hands the error to \<open>next\<close> with status 414, any other failure with
  status 500; the error is the one the filesystem gave.
\<close>

theorem stat_outcomes:
  assumes "req_method req = ''GET'' \<or> req_method req = ''HEAD''"
    and "decodeURIComponent (url_pathname req) = Some dir"
    and "decodeURIComponent (original_pathname req) = Some originalDir"
    and "CHR 0x00 \<notin> set (request_path self dir)"
    and "\<not> malicious self (request_path self dir)"
  shows "(fs_stat (filesystem self) (request_path self dir) = Inl err \<and> code err = ''ENOENT''
            \<longrightarrow> serve e custom self req order cache = (Next None, cache))
       \<and> (fs_stat (filesystem self) (request_path self dir) = Inr st \<and> \<not> isDirectory st
            \<longrightarrow> serve e custom self req order cache = (Next None, cache))
       \<and> (fs_stat (filesystem self) (request_path self dir) = Inl err
            \<and> code err = ''ENAMETOOLONG''
            \<longrightarrow> serve e custom self req order cache
                  = (Next (Some (FsError err (Some 414))), cache))
       \<and> (fs_stat (filesystem self) (request_path self dir) = Inl err
            \<and> code err \<noteq> ''ENOENT'' \<and> code err \<noteq> ''ENAMETOOLONG''
            \<longrightarrow> serve e custom self req order cache
                  = (Next (Some (FsError err (Some 500))), cache))"
  using assms unfolding serve_def by auto

theorem stat_outcomes_witness:
  "fst (serve sample_env no_custom sample_site (get_request ''/nothere'' TextHtml) []
          Map.empty) = Next None
   \<and> fst (serve sample_env no_custom sample_site (get_request ''/b.txt'' TextHtml) []
          Map.empty) = Next None
   \<and> fst (serve sample_env no_custom sample_site (get_request ''/long'' TextHtml) []
          Map.empty) = Next (Some (FsError enametoolong (Some 414)))
   \<and> fst (serve sample_env no_custom sample_site (get_request ''/locked'' TextHtml) []
          Map.empty) = Next (Some (FsError eacces (Some 500)))"
proof -
  have c1: "fst (serve sample_env no_custom sample_site (get_request ''/nothere'' TextHtml) []
          Map.empty) = Next None"
  proof -
    let ?req = "get_request ''/nothere'' TextHtml"
    have m: "req_method ?req = ''GET'' \<or> req_method ?req = ''HEAD''"
      by (simp add: get_request_def)
    have d: "decodeURIComponent (url_pathname ?req) = Some ''/nothere''"
      by code_simp
    have d': "decodeURIComponent (original_pathname ?req) = Some ''/nothere''"
      by code_simp
    have n: "CHR 0x00 \<notin> set (request_path sample_site ''/nothere'')"
      by code_simp
    have x: "\<not> malicious sample_site (request_path sample_site ''/nothere'')"
      by code_simp
    have s: "fs_stat (filesystem sample_site) (request_path sample_site ''/nothere'') = Inl enoent
               \<and> code enoent = ''ENOENT''"
      by code_simp
    show ?thesis
      using stat_outcomes [OF m d d' n x, where e = sample_env and custom = no_custom
          and order = "[]" and cache = Map.empty and err = enoent, THEN conjunct1] s
      by simp
  qed
  have c2: "fst (serve sample_env no_custom sample_site (get_request ''/b.txt'' TextHtml) []
          Map.empty) = Next None"
  proof -
    let ?req = "get_request ''/b.txt'' TextHtml"
    have m: "req_method ?req = ''GET'' \<or> req_method ?req = ''HEAD''"
      by (simp add: get_request_def)
    have d: "decodeURIComponent (url_pathname ?req) = Some ''/b.txt''"
      by code_simp
    have d': "decodeURIComponent (original_pathname ?req) = Some ''/b.txt''"
      by code_simp
    have n: "CHR 0x00 \<notin> set (request_path sample_site ''/b.txt'')"
      by code_simp
    have x: "\<not> malicious sample_site (request_path sample_site ''/b.txt'')"
      by code_simp
    have s: "fs_stat (filesystem sample_site) (request_path sample_site ''/b.txt'') = Inr (file_stats 5)
               \<and> \<not> isDirectory (file_stats 5)"
      by code_simp
    show ?thesis
      using stat_outcomes [OF m d d' n x, where e = sample_env and custom = no_custom
          and order = "[]" and cache = Map.empty and st = "file_stats 5", THEN conjunct2 [THEN conjunct1]] s
      by simp
  qed
  have c3: "fst (serve sample_env no_custom sample_site (get_request ''/long'' TextHtml) []
          Map.empty) = Next (Some (FsError enametoolong (Some 414)))"
  proof -
    let ?req = "get_request ''/long'' TextHtml"
    have m: "req_method ?req = ''GET'' \<or> req_method ?req = ''HEAD''"
      by (simp add: get_request_def)
    have d: "decodeURIComponent (url_pathname ?req) = Some ''/long''"
      by code_simp
    have d': "decodeURIComponent (original_pathname ?req) = Some ''/long''"
      by code_simp
    have n: "CHR 0x00 \<notin> set (request_path sample_site ''/long'')"
      by code_simp
    have x: "\<not> malicious sample_site (request_path sample_site ''/long'')"
      by code_simp
    have s: "fs_stat (filesystem sample_site) (request_path sample_site ''/long'') = Inl enametoolong
               \<and> code enametoolong = ''ENAMETOOLONG''"
      by code_simp
    show ?thesis
      using stat_outcomes [OF m d d' n x, where e = sample_env and custom = no_custom
          and order = "[]" and cache = Map.empty and err = enametoolong, THEN conjunct2 [THEN conjunct2, THEN conjunct1]] s
      by simp
  qed
  have c4: "fst (serve sample_env no_custom sample_site (get_request ''/locked'' TextHtml) []
          Map.empty) = Next (Some (FsError eacces (Some 500)))"
  proof -
    let ?req = "get_request ''/locked'' TextHtml"
    have m: "req_method ?req = ''GET'' \<or> req_method ?req = ''HEAD''"
      by (simp add: get_request_def)
    have d: "decodeURIComponent (url_pathname ?req) = Some ''/locked''"
      by code_simp
    have d': "decodeURIComponent (original_pathname ?req) = Some ''/locked''"
      by code_simp
    have n: "CHR 0x00 \<notin> set (request_path sample_site ''/locked'')"
      by code_simp
    have x: "\<not> malicious sample_site (request_path sample_site ''/locked'')"
      by code_simp
    have s: "fs_stat (filesystem sample_site) (request_path sample_site ''/locked'') = Inl eacces
               \<and> code eacces \<noteq> ''ENOENT'' \<and> code eacces \<noteq> ''ENAMETOOLONG''"
      by code_simp
    show ?thesis
      using stat_outcomes [OF m d d' n x, where e = sample_env and custom = no_custom
          and order = "[]" and cache = Map.empty and err = eacces, THEN conjunct2 [THEN conjunct2, THEN conjunct2]] s
      by simp
  qed
  from c1 c2 c3 c4 show ?thesis by simp
qed

section \<open>The listing and its representations\<close>

lemma set_apply_filter: "set (apply_filter f pth files) \<subseteq> set files"
  by (auto simp: apply_filter_def dest: set_zip_leftD)

lemma set_removeHidden: "set (removeHidden files) \<subseteq> set files"
  by (auto simp: removeHidden_def)

lemma set_listing: "set (listing self pth files) \<subseteq> set files"
proof (cases "filter_opt self")
  case None
  then show ?thesis
    using set_removeHidden [of files] by (auto simp: listing_def)
next
  case (Some f)
  have "set (apply_filter f pth (removeHidden files)) \<subseteq> set files"
    using set_apply_filter [of f pth "removeHidden files"] set_removeHidden [of files]
    by blast
  with Some show ?thesis
    using set_apply_filter [of f pth files] by (auto simp: listing_def)
qed

lemma sorted_listing: "sorted (map utf16_units (listing self pth files))"
  by (simp add: listing_def Let_def)

lemma removeHidden_filter:
  "removeHidden files = filter (\<lambda>filename. take 1 filename \<noteq> ''.'') files"
proof -
  have "(case filename of [] \<Rightarrow> True | c # _ \<Rightarrow> c \<noteq> CHR ''.'') = (take 1 filename \<noteq> ''.'')"
    for filename
    by (cases filename) simp_all
  then show ?thesis by (simp add: removeHidden_def)
qed

text \<open>The names of the listing are the names kept, each as often as it was kept.\<close>

lemma mset_listing:
  "mset (listing self pth files)
     = mset (let files1 = (if hidden self then files
                           else filter (\<lambda>filename. take 1 filename \<noteq> ''.'') files)
             in case filter_opt self of
                  None \<Rightarrow> files1
                | Some f \<Rightarrow>
                    map fst (filter (\<lambda>(filename, i). f filename i files1 pth)
                               (zip files1 [0..<length files1])))"
  by (simp add: listing_def Let_def removeHidden_filter apply_filter_def
        split: option.splits)

lemma parent_in_listing:
  assumes "''..'' \<in> set (listing self pth files)"
  shows "hidden self \<and> ''..'' \<in> set files"
proof -
  have in_files: "''..'' \<in> set files"
    using assms set_listing [of self pth files] by blast
  have "hidden self"
  proof (rule ccontr)
    assume nh: "\<not> hidden self"
    have r: "''..'' \<notin> set (removeHidden files)"
      by (simp add: removeHidden_def)
    show False
    proof (cases "filter_opt self")
      case None
      with nh r assms show False by (simp add: listing_def)
    next
      case (Some f)
      with nh r assms set_apply_filter [of f pth "removeHidden files"] show False
        by (auto simp: listing_def)
    qed
  qed
  with in_files show ?thesis by simp
qed

text \<open>A request that reaches a directory is dispatched on its listing.\<close>

lemma serve_listing:
  assumes "req_method req = ''GET'' \<or> req_method req = ''HEAD''"
    and "decodeURIComponent (url_pathname req) = Some dir"
    and "decodeURIComponent (original_pathname req) = Some originalDir"
    and "CHR 0x00 \<notin> set (request_path self dir)"
    and "\<not> malicious self (request_path self dir)"
    and "fs_stat (filesystem self) (request_path self dir) = Inr st"
    and "isDirectory st"
    and "fs_readdir (filesystem self) (request_path self dir) = Inr files"
  shows "serve e custom self req order cache =
           dispatch e custom self req (listing self (request_path self dir) files) originalDir
             (showUp_of self (request_path self dir)) (request_path self dir) order cache"
  using assms unfolding serve_def Let_def by auto

subsection \<open>What the bodies say\<close>

text \<open>The plain body: every name followed by a newline; a newline alone for no name.\<close>

lemma join_with_concat:
  "join_with delim (x # xs) = x @ concat (map (\<lambda>y. delim @ y) xs)"
  by (induction xs arbitrary: x) simp_all

lemma plain_lines:
  "join_with [CHR 0x0A] files @ [CHR 0x0A]
     = (if files = [] then [CHR 0x0A] else concat (map (\<lambda>n. n @ [CHR 0x0A]) files))"
proof (induction files)
  case Nil
  then show ?case by simp
next
  case (Cons x xs)
  then show ?case by (cases xs) simp_all
qed

text \<open>The JSON body reads back as the names it was written from.\<close>

lemma hexval_zero: "hexval CHR ''0'' = Some 0"
  by (simp add: hexval_def)

lemma hexval_hexlower: "d < 16 \<Longrightarrow> hexval (hexlower d) = Some d"
  by (simp add: hexval_def hexlower_def Let_def)

lemma json_run_char:
  "json_run InString cur acc (json_char c @ rest) = json_run InString (cur @ [c]) acc rest"
proof -
  define n where "n = (of_char c :: nat)"
  have c: "c = char_of n"
    by (simp add: n_def)
  consider (quote) "c = CHR 0x22" | (backslash) "c = CHR 0x5C"
    | (named) "c \<noteq> CHR 0x22" "c \<noteq> CHR 0x5C" "n = 8 \<or> n = 12 \<or> n = 10 \<or> n = 13 \<or> n = 9"
    | (control) "c \<noteq> CHR 0x22" "c \<noteq> CHR 0x5C" "n \<noteq> 8" "n \<noteq> 12" "n \<noteq> 10" "n \<noteq> 13"
        "n \<noteq> 9" "n < 32"
    | (plain) "c \<noteq> CHR 0x22" "c \<noteq> CHR 0x5C" "\<not> n < 32"
    by linarith
  then show ?thesis
  proof cases
    case quote
    then show ?thesis by (simp add: json_char_def unescape_def)
  next
    case backslash
    then show ?thesis by (simp add: json_char_def unescape_def)
  next
    case named
    then show ?thesis
      using c by (auto simp: json_char_def unescape_def n_def [symmetric])
  next
    case control
    have h: "hexval (hexlower (n div 16)) = Some (n div 16)"
        "hexval (hexlower (n mod 16)) = Some (n mod 16)"
      using control(8) by (simp_all add: hexval_hexlower)
    have v: "16 * (n div 16) + n mod 16 = n"
      by simp
    from control show ?thesis
      using c by (simp add: json_char_def n_def [symmetric] hexval_zero h v)
  next
    case plain
    then show ?thesis
      by (simp add: json_char_def n_def [symmetric])
  qed
qed

lemma json_run_chars:
  "json_run InString cur acc (concat (map json_char s) @ rest)
     = json_run InString (cur @ s) acc rest"
  by (induction s arbitrary: cur) (simp_all add: json_run_char)

lemma json_run_quote:
  "json_run InString [] acc (concat (map json_char s) @ CHR 0x22 # rest)
     = json_run AfterItem [] (acc @ [s]) rest"
  using json_run_chars [of "[]" acc s "CHR 0x22 # rest"] by simp

lemma json_run_items:
  "json_run AfterItem [] acc (concat (map (\<lambda>n. '','' @ json_quote n) names) @ '']'')
     = Some (acc @ names)"
proof (induction names arbitrary: acc)
  case Nil
  then show ?case by simp
next
  case (Cons x xs)
  have "json_run AfterItem [] acc
          (concat (map (\<lambda>n. '','' @ json_quote n) (x # xs)) @ '']'')
        = json_run InString [] acc
            (concat (map json_char x)
               @ CHR 0x22 # (concat (map (\<lambda>n. '','' @ json_quote n) xs) @ '']''))"
    by (simp add: json_quote_def)
  also have "\<dots> = json_run AfterItem [] (acc @ [x])
                     (concat (map (\<lambda>n. '','' @ json_quote n) xs) @ '']'')"
    by (rule json_run_quote)
  also have "\<dots> = Some ((acc @ [x]) @ xs)"
    by (rule Cons.IH)
  finally show ?case by simp
qed

lemma json_roundtrip: "json_parse (JSON_stringify files) = Some files"
proof (cases files)
  case Nil
  then show ?thesis by (simp add: json_parse_def JSON_stringify_def)
next
  case (Cons x xs)
  have "json_parse (JSON_stringify files)
          = json_run InString [] []
              (concat (map json_char x)
                 @ CHR 0x22 # (concat (map (\<lambda>n. '','' @ json_quote n) xs) @ '']''))"
    by (simp add: Cons json_parse_def JSON_stringify_def join_with_concat json_quote_def comp_def)
  also have "\<dots> = json_run AfterItem [] ([] @ [x])
                     (concat (map (\<lambda>n. '','' @ json_quote n) xs) @ '']'')"
    by (rule json_run_quote)
  also have "\<dots> = Some (([] @ [x]) @ xs)"
    by (rule json_run_items)
  finally show ?thesis by (simp add: Cons)
qed

text \<open>
  Claim C2, as the code has it. The built-in JSON handler sends the names as
  \<open>serve\<close> hands them over, serialized as a JSON array of strings that reads back as
  these names. They are the names \<open>readdir\<close> gave, without those that start with a
  dot (unless hidden files are shown) and without those the filter rejects, in the
  order of \<open>files.sort()\<close>: sorted by their code units. No metadata is looked up,
  directories are not put first, and the handler adds no parent entry: \<open>..\<close> is among
  the names only if hidden files are shown and \<open>readdir\<close> listed it.
\<close>

theorem json_body_is_presorted_listing:
  assumes "req_method req = ''GET'' \<or> req_method req = ''HEAD''"
    and "decodeURIComponent (url_pathname req) = Some dir"
    and "decodeURIComponent (original_pathname req) = Some originalDir"
    and "CHR 0x00 \<notin> set (request_path self dir)"
    and "\<not> malicious self (request_path self dir)"
    and "fs_stat (filesystem self) (request_path self dir) = Inr st"
    and "isDirectory st"
    and "fs_readdir (filesystem self) (request_path self dir) = Inr files"
    and "accept_type req = Some ApplicationJson"
    and "custom ApplicationJson = None"
  shows "(let names = listing self (request_path self dir) files;
              files1 = (if hidden self then files
                        else filter (\<lambda>filename. take 1 filename \<noteq> ''.'') files);
              kept = (case filter_opt self of
                        None \<Rightarrow> files1
                      | Some f \<Rightarrow>
                          map fst (filter (\<lambda>(filename, i). f filename i files1
                                              (request_path self dir))
                                     (zip files1 [0..<length files1])))
          in serve e custom self req order cache
               = (Sent [(''X-Content-Type-Options'', ''nosniff''),
                        (''Content-Type'', ''application/json; charset=utf-8''),
                        (''Content-Length'', show_nat (length (JSON_stringify names)))]
                    (JSON_stringify names), cache)
             \<and> json_parse (JSON_stringify names) = Some names
             \<and> sorted (map utf16_units names)
             \<and> mset names = mset kept
             \<and> (''..'' \<in> set names \<longrightarrow> hidden self \<and> ''..'' \<in> set files))"
proof -
  let ?names = "listing self (request_path self dir) files"
  have a: "serve e custom self req order cache
             = (Sent [(''X-Content-Type-Options'', ''nosniff''),
                      (''Content-Type'', ''application/json; charset=utf-8''),
                      (''Content-Length'', show_nat (length (JSON_stringify ?names)))]
                  (JSON_stringify ?names), cache)"
    by (simp add: serve_listing [OF assms(1-8)] assms(9,10) dispatch_def json_def send_def)
  have b: "json_parse (JSON_stringify ?names) = Some ?names"
    by (rule json_roundtrip)
  have c: "sorted (map utf16_units ?names)"
    by (rule sorted_listing)
  have d: "mset ?names
             = mset (case filter_opt self of
                       None \<Rightarrow>
                         if hidden self then files
                         else filter (\<lambda>filename. take 1 filename \<noteq> ''.'') files
                     | Some f \<Rightarrow>
                         map fst
                           (filter
                              (\<lambda>(filename, i).
                                  f filename i
                                    (if hidden self then files
                                     else filter (\<lambda>filename. take 1 filename \<noteq> ''.'') files)
                                    (request_path self dir))
                              (zip (if hidden self then files
                                    else filter (\<lambda>filename. take 1 filename \<noteq> ''.'') files)
                                 [0..<length
                                        (if hidden self then files
                                         else filter (\<lambda>filename. take 1 filename \<noteq> ''.'')
                                                files)])))"
    using mset_listing [of self "request_path self dir" files] unfolding Let_def .
  have g: "''..'' \<in> set ?names \<longrightarrow> hidden self \<and> ''..'' \<in> set files"
    using parent_in_listing [of self "request_path self dir" files] by blast
  show ?thesis
    unfolding Let_def by (intro conjI) (rule a b c d g)+
qed

theorem json_body_is_presorted_listing_witness:
  "serve sample_env no_custom sample_site (get_request ''/pub/'' ApplicationJson) [] Map.empty
     = (Sent [(''X-Content-Type-Options'', ''nosniff''),
              (''Content-Type'', ''application/json; charset=utf-8''),
              (''Content-Length'', ''20'')]
          (''['' @ CHR 0x22 # ''alpha.txt'' @ CHR 0x22 # '','' @ CHR 0x22 # ''zeta''
             @ CHR 0x22 # '']''), Map.empty)
   \<and> listing sample_site ''/srv/www/pub/''
        [[CHR 0xEF, CHR 0xBD, CHR 0xA1], [CHR 0xF0, CHR 0x90, CHR 0x80, CHR 0x80]]
       = [[CHR 0xF0, CHR 0x90, CHR 0x80, CHR 0x80], [CHR 0xEF, CHR 0xBD, CHR 0xA1]]"
proof -
  let ?req = "get_request ''/pub/'' ApplicationJson"
  have m: "req_method ?req = ''GET'' \<or> req_method ?req = ''HEAD''"
    by (simp add: get_request_def)
  have d: "decodeURIComponent (url_pathname ?req) = Some ''/pub/''"
    by code_simp
  have d': "decodeURIComponent (original_pathname ?req) = Some ''/pub/''"
    by code_simp
  have p: "request_path sample_site ''/pub/'' = ''/srv/www/pub/''"
    by code_simp
  have n: "CHR 0x00 \<notin> set (request_path sample_site ''/pub/'')"
    by code_simp
  have x: "\<not> malicious sample_site (request_path sample_site ''/pub/'')"
    by code_simp
  have s: "fs_stat (filesystem sample_site) (request_path sample_site ''/pub/'') = Inr dir_stats"
    by code_simp
  have i: "isDirectory dir_stats"
    by code_simp
  have r: "fs_readdir (filesystem sample_site) (request_path sample_site ''/pub/'')
             = Inr [''zeta'', ''alpha.txt'']"
    by code_simp
  have a: "accept_type ?req = Some ApplicationJson"
    by (simp add: get_request_def)
  have c: "no_custom ApplicationJson = None"
    by (simp add: no_custom_def)
  have l: "listing sample_site (request_path sample_site ''/pub/'') [''zeta'', ''alpha.txt'']
             = [''alpha.txt'', ''zeta'']"
    by code_simp
  have j: "JSON_stringify [''alpha.txt'', ''zeta'']
             = ''['' @ CHR 0x22 # ''alpha.txt'' @ CHR 0x22 # '','' @ CHR 0x22 # ''zeta''
                 @ CHR 0x22 # '']''"
    by code_simp
  have k: "show_nat (length (''['' @ CHR 0x22 # ''alpha.txt'' @ CHR 0x22 # '','' @ CHR 0x22
                               # ''zeta'' @ CHR 0x22 # '']'')) = ''20''"
    by code_simp
  have u: "listing sample_site ''/srv/www/pub/''
             [[CHR 0xEF, CHR 0xBD, CHR 0xA1], [CHR 0xF0, CHR 0x90, CHR 0x80, CHR 0x80]]
           = [[CHR 0xF0, CHR 0x90, CHR 0x80, CHR 0x80], [CHR 0xEF, CHR 0xBD, CHR 0xA1]]"
    by code_simp
  have "serve sample_env no_custom sample_site ?req [] Map.empty
          = (Sent [(''X-Content-Type-Options'', ''nosniff''),
                   (''Content-Type'', ''application/json; charset=utf-8''),
                   (''Content-Length'',
                    show_nat (length (JSON_stringify
                      (listing sample_site (request_path sample_site ''/pub/'')
                         [''zeta'', ''alpha.txt'']))))]
               (JSON_stringify
                  (listing sample_site (request_path sample_site ''/pub/'')
                     [''zeta'', ''alpha.txt''])), Map.empty)"
    using json_body_is_presorted_listing [where custom = no_custom and e = sample_env
      and order = "[]" and cache = Map.empty, OF m d d' n x s i r a c, unfolded Let_def]
    by (rule conjunct1)
  then have "serve sample_env no_custom sample_site ?req [] Map.empty
          = (Sent [(''X-Content-Type-Options'', ''nosniff''),
                   (''Content-Type'', ''application/json; charset=utf-8''),
                   (''Content-Length'', ''20'')]
               (''['' @ CHR 0x22 # ''alpha.txt'' @ CHR 0x22 # '','' @ CHR 0x22 # ''zeta''
                  @ CHR 0x22 # '']''), Map.empty)"
    unfolding l j k .
  then show ?thesis
    using u by (rule conjI)
qed

text \<open>
  Claim C2 as stated fails. In \<open>/srv/www/pub\<close> the file \<open>alpha.txt\<close> precedes the
  directory \<open>zeta\<close> in the JSON body, while the order of \<open>fileSort\<close> on the same
  entries, with the metadata \<open>statFiles\<close> finds for them, puts \<open>zeta\<close> first.
\<close>

theorem json_order_differs_from_sorter:
  "fst (serve sample_env no_custom sample_site (get_request ''/pub/'' ApplicationJson) []
          Map.empty)
     = Sent [(''X-Content-Type-Options'', ''nosniff''),
             (''Content-Type'', ''application/json; charset=utf-8''),
             (''Content-Length'', ''20'')]
         (''['' @ CHR 0x22 # ''alpha.txt'' @ CHR 0x22 # '','' @ CHR 0x22 # ''zeta''
            @ CHR 0x22 # '']'')
   \<and> statFiles (posix ''/home/u'') ''/srv/www/pub/'' [''alpha.txt'', ''zeta''] sample_fs [0, 1]
       = Some (Inr [Some (Some (file_stats 7)), Some (Some dir_stats)])
   \<and> map name (sort_by (fileSort sample_env)
        (combine_stats [''alpha.txt'', ''zeta'']
           [Some (Some (file_stats 7)), Some (Some dir_stats)]))
       = [''zeta'', ''alpha.txt'']"
  by code_simp

text \<open>
  Claim C9 as stated fails. Neither handler adds a parent entry, but both write
  every name of the listing. In \<open>/srv/www/docs\<close>, where \<open>showUp\<close> is true, with
  hidden files shown and a \<open>readdir\<close> that lists \<open>..\<close>, the JSON body and the plain
  body have the entry \<open>..\<close>; and a file whose name is \<open>x\<close>, newline, \<open>..\<close> gives the
  plain body a line \<open>..\<close>.
\<close>

theorem parent_entry_in_plain_and_json_bodies:
  "showUp_of (sample_site\<lparr>hidden := True, filesystem := dotted_fs\<rparr>) ''/srv/www/docs/''
   \<and> fst (serve sample_env no_custom (sample_site\<lparr>hidden := True, filesystem := dotted_fs\<rparr>)
            (get_request ''/docs/'' ApplicationJson) [] Map.empty)
       = Sent [(''X-Content-Type-Options'', ''nosniff''),
               (''Content-Type'', ''application/json; charset=utf-8''),
               (''Content-Length'', ''14'')]
           (''['' @ CHR 0x22 # ''..'' @ CHR 0x22 # '','' @ CHR 0x22 # ''a.txt'' @ CHR 0x22
              # '']'')
   \<and> fst (serve sample_env no_custom (sample_site\<lparr>hidden := True, filesystem := dotted_fs\<rparr>)
            (get_request ''/docs/'' TextPlain) [] Map.empty)
       = Sent [(''X-Content-Type-Options'', ''nosniff''),
               (''Content-Type'', ''text/plain; charset=utf-8''),
               (''Content-Length'', ''9'')]
           (''..'' @ CHR 0x0A # ''a.txt'' @ [CHR 0x0A])
   \<and> showUp_of (sample_site\<lparr>filesystem := newline_fs\<rparr>) ''/srv/www/docs/''
   \<and> fst (serve sample_env no_custom (sample_site\<lparr>filesystem := newline_fs\<rparr>)
            (get_request ''/docs/'' TextPlain) [] Map.empty)
       = Sent [(''X-Content-Type-Options'', ''nosniff''),
               (''Content-Type'', ''text/plain; charset=utf-8''),
               (''Content-Length'', ''5'')]
           (''x'' @ CHR 0x0A # ''..'' @ [CHR 0x0A])"
  by code_simp

text \<open>
  Claim C9, as the code has it. For a request negotiated to the plain or the JSON
  representation the built-in handler sends the names of the listing, whatever the
  value of \<open>showUp\<close>: the plain body is each name followed by a newline, the JSON
  body reads back as the names. The names are among those \<open>readdir\<close> gave, and \<open>..\<close>
  is one of them only if hidden files are shown and \<open>readdir\<close> listed it. The HTML
  handler is the one that puts \<open>..\<close> in front: with \<open>showUp\<close> it behaves as it does
  without \<open>showUp\<close> on the list that starts with \<open>..\<close>.
\<close>

theorem parent_entry_only_in_html:
  assumes "req_method req = ''GET'' \<or> req_method req = ''HEAD''"
    and "decodeURIComponent (url_pathname req) = Some dir"
    and "decodeURIComponent (original_pathname req) = Some originalDir"
    and "CHR 0x00 \<notin> set (request_path self dir)"
    and "\<not> malicious self (request_path self dir)"
    and "fs_stat (filesystem self) (request_path self dir) = Inr st"
    and "isDirectory st"
    and "fs_readdir (filesystem self) (request_path self dir) = Inr files"
    and "accept_type req = Some t"
    and "t = TextPlain \<or> t = ApplicationJson"
    and "custom t = (None :: (handler_args \<Rightarrow> 'h) option)"
  shows "(let names = listing self (request_path self dir) files;
              body = (if t = TextPlain
                      then (if names = [] then [CHR 0x0A]
                            else concat (map (\<lambda>n. n @ [CHR 0x0A]) names))
                      else JSON_stringify names)
          in serve e custom self req order cache
               = (Sent [(''X-Content-Type-Options'', ''nosniff''),
                        (''Content-Type'',
                         (if t = TextPlain then ''text/plain'' else ''application/json'')
                           @ ''; charset=utf-8''),
                        (''Content-Length'', show_nat (length body))] body, cache)
             \<and> (t = ApplicationJson \<longrightarrow> json_parse body = Some names)
             \<and> set names \<subseteq> set files
             \<and> (''..'' \<in> set names \<longrightarrow> hidden self \<and> ''..'' \<in> set files)
             \<and> (html e (pathLib self) names originalDir True (showIcons self)
                   (request_path self dir) (view self) (template self) (stylesheet self)
                   (filesystem self) order cache :: 'h outcome \<times> cache)
                 = html e (pathLib self) (''..'' # names) originalDir False (showIcons self)
                     (request_path self dir) (view self) (template self) (stylesheet self)
                     (filesystem self) order cache)"
proof -
  let ?names = "listing self (request_path self dir) files"
  let ?body = "if t = TextPlain
               then (if ?names = [] then [CHR 0x0A]
                     else concat (map (\<lambda>n. n @ [CHR 0x0A]) ?names))
               else JSON_stringify ?names"
  have a: "serve e custom self req order cache
             = (Sent [(''X-Content-Type-Options'', ''nosniff''),
                      (''Content-Type'',
                       (if t = TextPlain then ''text/plain'' else ''application/json'')
                         @ ''; charset=utf-8''),
                      (''Content-Length'', show_nat (length ?body))] ?body, cache)"
  proof (cases "t = TextPlain")
    case True
    then show ?thesis
      using assms(9,11)
      by (simp add: serve_listing [OF assms(1-8)] dispatch_def plain_def send_def plain_lines)
  next
    case False
    with assms(10) have "t = ApplicationJson"
      by simp
    then show ?thesis
      using assms(9,11)
      by (simp add: serve_listing [OF assms(1-8)] dispatch_def json_def send_def)
  qed
  have b: "t = ApplicationJson \<longrightarrow> json_parse ?body = Some ?names"
    by (simp add: json_roundtrip)
  have c: "set ?names \<subseteq> set files"
    by (rule set_listing)
  have d: "''..'' \<in> set ?names \<longrightarrow> hidden self \<and> ''..'' \<in> set files"
    using parent_in_listing [of self "request_path self dir" files] by blast
  have h: "(html e lib fl od True ic pth v tm ss fsys order cache :: 'h outcome \<times> cache)
             = html e lib (''..'' # fl) od False ic pth v tm ss fsys order cache"
    for lib fl od ic pth v tm ss fsys
    by (simp add: html_def)
  show ?thesis
    unfolding Let_def by (intro conjI) (rule a b c d h)+
qed

theorem parent_entry_only_in_html_witness:
  "showUp_of sample_site ''/srv/www/docs/''
   \<and> serve sample_env no_custom sample_site (get_request ''/docs/'' TextPlain) [] Map.empty
       = (Sent [(''X-Content-Type-Options'', ''nosniff''),
                (''Content-Type'', ''text/plain; charset=utf-8''),
                (''Content-Length'', ''14'')]
            (''img'' @ CHR 0x0A # ''notes.txt'' @ [CHR 0x0A]), Map.empty)"
proof -
  let ?req = "get_request ''/docs/'' TextPlain"
  have m: "req_method ?req = ''GET'' \<or> req_method ?req = ''HEAD''"
    by (simp add: get_request_def)
  have d: "decodeURIComponent (url_pathname ?req) = Some ''/docs/''"
    by code_simp
  have d': "decodeURIComponent (original_pathname ?req) = Some ''/docs/''"
    by code_simp
  have p: "request_path sample_site ''/docs/'' = ''/srv/www/docs/''"
    by code_simp
  have n: "CHR 0x00 \<notin> set (request_path sample_site ''/docs/'')"
    by code_simp
  have x: "\<not> malicious sample_site (request_path sample_site ''/docs/'')"
    by code_simp
  have s: "fs_stat (filesystem sample_site) (request_path sample_site ''/docs/'') = Inr dir_stats"
    by code_simp
  have i: "isDirectory dir_stats"
    by code_simp
  have r: "fs_readdir (filesystem sample_site) (request_path sample_site ''/docs/'')
             = Inr [''.secret'', ''notes.txt'', ''img'']"
    by code_simp
  have a: "accept_type ?req = Some TextPlain"
    by (simp add: get_request_def)
  have k: "TextPlain = TextPlain \<or> TextPlain = ApplicationJson"
    by simp
  have c: "no_custom TextPlain = None"
    by (simp add: no_custom_def)
  have l: "listing sample_site (request_path sample_site ''/docs/'')
             [''.secret'', ''notes.txt'', ''img''] = [''img'', ''notes.txt'']"
    by code_simp
  have su: "showUp_of sample_site ''/srv/www/docs/''"
    by code_simp
  have b: "concat (map (\<lambda>n. n @ [CHR 0x0A]) [''img'', ''notes.txt''])
             = ''img'' @ CHR 0x0A # ''notes.txt'' @ [CHR 0x0A]"
    by simp
  have len: "show_nat (length (''img'' @ CHR 0x0A # ''notes.txt'' @ [CHR 0x0A])) = ''14''"
    by code_simp
  have "serve sample_env no_custom sample_site ?req [] Map.empty
          = (Sent [(''X-Content-Type-Options'', ''nosniff''),
                   (''Content-Type'',
                    (if TextPlain = TextPlain then ''text/plain'' else ''application/json'')
                      @ ''; charset=utf-8''),
                   (''Content-Length'',
                    show_nat (length
                      (if TextPlain = TextPlain
                       then (if listing sample_site (request_path sample_site ''/docs/'')
                                  [''.secret'', ''notes.txt'', ''img''] = []
                             then [CHR 0x0A]
                             else concat (map (\<lambda>n. n @ [CHR 0x0A])
                                    (listing sample_site (request_path sample_site ''/docs/'')
                                       [''.secret'', ''notes.txt'', ''img''])))
                       else JSON_stringify
                              (listing sample_site (request_path sample_site ''/docs/'')
                                 [''.secret'', ''notes.txt'', ''img'']))))]
               (if TextPlain = TextPlain
                then (if listing sample_site (request_path sample_site ''/docs/'')
                           [''.secret'', ''notes.txt'', ''img''] = []
                      then [CHR 0x0A]
                      else concat (map (\<lambda>n. n @ [CHR 0x0A])
                             (listing sample_site (request_path sample_site ''/docs/'')
                                [''.secret'', ''notes.txt'', ''img''])))
                else JSON_stringify
                       (listing sample_site (request_path sample_site ''/docs/'')
                          [''.secret'', ''notes.txt'', ''img''])), Map.empty)"
    using parent_entry_only_in_html [where custom = no_custom and e = sample_env
      and order = "[]" and cache = Map.empty, OF m d d' n x s i r a k c, unfolded Let_def]
    by (rule conjunct1)
  then have "serve sample_env no_custom sample_site ?req [] Map.empty
          = (Sent [(''X-Content-Type-Options'', ''nosniff''),
                   (''Content-Type'', ''text/plain; charset=utf-8''),
                   (''Content-Length'',
                    show_nat (length (''img'' @ CHR 0x0A # ''notes.txt'' @ [CHR 0x0A])))]
               (''img'' @ CHR 0x0A # ''notes.txt'' @ [CHR 0x0A]), Map.empty)"
    unfolding l b by simp
  then have "serve sample_env no_custom sample_site ?req [] Map.empty
          = (Sent [(''X-Content-Type-Options'', ''nosniff''),
                   (''Content-Type'', ''text/plain; charset=utf-8''),
                   (''Content-Length'', ''14'')]
               (''img'' @ CHR 0x0A # ''notes.txt'' @ [CHR 0x0A]), Map.empty)"
    unfolding len .
  with su show ?thesis
    by (rule conjI)
qed

section \<open>The configured filesystem\<close>





section \<open>The parent entry flag\<close>

lemma split_on_nonempty: "split_on c xs \<noteq> []"
  by (induction xs) (auto split: list.splits)

lemma split_on_no_sep: "s \<in> set (split_on c xs) \<Longrightarrow> c \<notin> set s"
proof (induction xs arbitrary: s)
  case Nil
  then show ?case by simp
next
  case (Cons x xs)
  then show ?case
    by (cases "split_on c xs") (auto split: if_splits)
qed

lemma split_on_append:
  "c \<notin> set s \<Longrightarrow> split_on c (s @ c # rest) = s # split_on c rest"
  by (induction s) auto

lemma split_join_clean:
  assumes "list_all clean_seg segs" and "segs \<noteq> []"
  shows "split_on CHR ''/'' (join_with ''/'' segs @ ''/'') = segs @ [[]]"
  using assms
proof (induction segs)
  case Nil
  then show ?case by simp
next
  case (Cons x xs)
  then have x: "CHR ''/'' \<notin> set x" by (simp add: clean_seg_def)
  show ?case
  proof (cases xs)
    case Nil
    from split_on_append [OF x, of "[]"] Nil show ?thesis by simp
  next
    case (Cons y ys)
    with Cons.IH Cons.prems
    have "split_on CHR ''/'' (join_with ''/'' (y # ys) @ ''/'') = (y # ys) @ [[]]"
      by simp
    with split_on_append [OF x, of "join_with ''/'' (y # ys) @ ''/''"] Cons
    show ?thesis by simp
  qed
qed

lemma normalizeSegs_clean_out:
  assumes "list_all clean_seg acc" and "\<And>s. s \<in> set xs \<Longrightarrow> CHR ''/'' \<notin> set s"
  shows "list_all clean_seg (normalizeSegs False acc xs)"
  using assms
proof (induction xs arbitrary: acc)
  case Nil
  then show ?case by simp
next
  case (Cons s ss)
  have ss: "\<And>t. t \<in> set ss \<Longrightarrow> CHR ''/'' \<notin> set t" using Cons.prems(2) by simp
  have s: "CHR ''/'' \<notin> set s" using Cons.prems(2) by simp
  show ?case
  proof (cases "s = [] \<or> s = ''.''")
    case True
    then show ?thesis using Cons.IH [OF Cons.prems(1) ss] by auto
  next
    case False
    note ne = this
    show ?thesis
    proof (cases "s = ''..''")
      case True
      show ?thesis
      proof (cases acc)
        case Nil
        with True show ?thesis using Cons.IH [of "[]"] ss by simp
      next
        case (Cons a as)
        with Cons.prems(1) have "clean_seg a" and as: "list_all clean_seg as"
          by auto
        then have "a \<noteq> ''..''" by (simp add: clean_seg_def)
        with True Cons as show ?thesis using Cons.IH [of as] ss by simp
      qed
    next
      case False
      with ne s have "clean_seg s" by (simp add: clean_seg_def)
      with Cons.prems(1) have "list_all clean_seg (s # acc)" by simp
      from Cons.IH [OF this ss] ne False show ?thesis by simp
    qed
  qed
qed

lemma normalizeSegs_clean_in:
  assumes "list_all clean_seg segs"
  shows "normalizeSegs b acc (segs @ [[]]) = rev acc @ segs"
  using assms
  by (induction segs arbitrary: acc) (auto simp: clean_seg_def)

lemma join_with_nonempty:
  assumes "list_all clean_seg segs" and "segs \<noteq> []"
  shows "join_with ''/'' segs \<noteq> []"
proof (cases segs)
  case Nil
  with assms(2) show ?thesis by simp
next
  case (Cons x xs)
  with assms(1) show ?thesis by (cases xs) (auto simp: clean_seg_def)
qed

text \<open>Resolved absolute paths: a slash, then clean segments joined by slashes.\<close>

lemma normalize_resolved:
  assumes "list_all clean_seg segs"
  shows "posix_normalize ((''/'' @ join_with ''/'' segs) @ ''/'')
           = (if segs = [] then ''/'' else ''/'' @ join_with ''/'' segs @ ''/'')"
proof (cases "segs = []")
  case True
  then show ?thesis
    by (simp add: posix_normalize_def normalizeString_def)
next
  case False
  have sp: "split_on CHR ''/'' (CHR ''/'' # join_with ''/'' segs @ ''/'') = [] # segs @ [[]]"
    using split_join_clean [OF assms False] by simp
  have ns: "normalizeSegs False [] ([] # segs @ [[]]) = segs"
    using normalizeSegs_clean_in [OF assms, where b = False and acc = "[]"] by simp
  have ne: "join_with ''/'' segs \<noteq> []"
    by (rule join_with_nonempty [OF assms False])
  have "normalizeString (CHR ''/'' # join_with ''/'' segs @ ''/'') False = join_with ''/'' segs"
    unfolding normalizeString_def sp ns ..
  then show ?thesis
    using False ne by (simp add: posix_normalize_def Let_def)
qed

lemma resolve_absolute:
  assumes "cwd \<noteq> []" and "hd cwd = CHR ''/''"
  shows "\<exists>segs. list_all clean_seg segs \<and> posix_resolve cwd [x] = ''/'' @ join_with ''/'' segs"
proof -
  obtain rp where rp: "resolve_loop [x, cwd] [] = (rp, True)"
    using assms by (cases "x = []"; cases "hd x = CHR ''/''") auto
  let ?segs = "normalizeSegs False [] (split_on CHR ''/'' rp)"
  have "list_all clean_seg ?segs"
    by (rule normalizeSegs_clean_out) (auto dest: split_on_no_sep)
  moreover have "posix_resolve cwd [x] = ''/'' @ join_with ''/'' ?segs"
    using rp by (simp del: resolve_loop.simps add: posix_resolve_def normalizeString_def)
  ultimately show ?thesis by blast
qed

lemma normalize_resolved_inj:
  assumes "list_all clean_seg segs1" and "list_all clean_seg segs2"
    and "posix_normalize ((''/'' @ join_with ''/'' segs1) @ ''/'')
           = posix_normalize ((''/'' @ join_with ''/'' segs2) @ ''/'')"
  shows "join_with ''/'' segs1 = join_with ''/'' segs2"
proof -
  have n1: "segs1 \<noteq> [] \<Longrightarrow> join_with ''/'' segs1 \<noteq> []"
    by (rule join_with_nonempty [OF assms(1)])
  have n2: "segs2 \<noteq> [] \<Longrightarrow> join_with ''/'' segs2 \<noteq> []"
    by (rule join_with_nonempty [OF assms(2)])
  from assms(3) show ?thesis
    unfolding normalize_resolved [OF assms(1)] normalize_resolved [OF assms(2)]
    using n1 n2 by (cases "segs1 = []"; cases "segs2 = []") auto
qed

text \<open>
  Claim C7. For an instance built by the constructor over the POSIX path library of a
  process with an absolute working directory, the flag \<open>showUp\<close> is computed as
  \<open>normalize(resolve(path) + sep) !== rootPath\<close>, and it is false exactly when the
  path and the configured root resolve to the same directory. \<open>serve\<close> computes the
  flag on the normalized request path (lemma \<open>serve_listing\<close>).
\<close>

theorem showUp_false_iff_root:
  assumes "cwd \<noteq> []" and "hd cwd = CHR ''/''"
    and "ServeIndex e root opts = Inr self"
    and "pathLib self = posix cwd"
  shows "showUp_of self pth
           = (normalize (pathLib self) (resolve (pathLib self) [pth] @ [sep (pathLib self)])
                \<noteq> rootPath self)
         \<and> (\<not> showUp_of self pth) = (posix_resolve cwd [pth] = posix_resolve cwd [root])"
proof -
  obtain s1 where s1: "list_all clean_seg s1"
      "posix_resolve cwd [pth] = ''/'' @ join_with ''/'' s1"
    using resolve_absolute [OF assms(1,2), of pth] by blast
  obtain s2 where s2: "list_all clean_seg s2"
      "posix_resolve cwd [root] = ''/'' @ join_with ''/'' s2"
    using resolve_absolute [OF assms(1,2), of root] by blast
  have rp: "rootPath self = posix_normalize (posix_resolve cwd [root] @ ''/'')"
    using assms(3,4) by (auto simp: ServeIndex_def posix_def Let_def split: if_splits)
  have su: "showUp_of self pth
              = (posix_normalize (posix_resolve cwd [pth] @ ''/'') \<noteq> rootPath self)"
    by (simp add: showUp_of_def assms(4) posix_def)
  have eq: "(posix_normalize (posix_resolve cwd [pth] @ ''/'')
           = posix_normalize (posix_resolve cwd [root] @ ''/''))
        = (posix_resolve cwd [pth] = posix_resolve cwd [root])"
    using normalize_resolved_inj [OF s1(1) s2(1)] unfolding s1(2) s2(2) by auto
  have c1: "showUp_of self pth
              = (normalize (pathLib self)
                   (resolve (pathLib self) [pth] @ [sep (pathLib self)]) \<noteq> rootPath self)"
    by (simp add: showUp_of_def)
  have c2: "(\<not> showUp_of self pth) = (posix_resolve cwd [pth] = posix_resolve cwd [root])"
    unfolding su rp using eq by simp
  from c1 c2 show ?thesis by (rule conjI)
qed

theorem showUp_false_iff_root_witness:
  "ServeIndex sample_env ''/srv/www'' sample_options = Inr sample_site
   \<and> \<not> showUp_of sample_site ''/srv/www/''
   \<and> posix_resolve ''/home/u'' [''/srv/www/''] = posix_resolve ''/home/u'' [''/srv/www'']"
proof -
  have c: "''/home/u'' \<noteq> []" and h: "hd ''/home/u'' = CHR ''/''"
    by simp_all
  have r: "posix_normalize (posix_resolve ''/home/u'' [''/srv/www''] @ ''/'') = ''/srv/www/''"
    by code_simp
  have st: "posix_join [''/app'', ''public'', ''style.css''] = ''/app/public/style.css''"
    by code_simp
  have tp: "posix_join [''/app'', ''public'', ''directory.html'']
              = ''/app/public/directory.html''"
    by code_simp
  have si: "ServeIndex sample_env ''/srv/www'' sample_options = Inr sample_site"
    by (simp add: ServeIndex_def sample_env_def sample_options_def sample_site_def posix_def
          or_default_def defaultStylesheet_def defaultTemplate_def r st tp)
  have pl: "pathLib sample_site = posix ''/home/u''"
    by (simp add: sample_site_def)
  have e: "posix_resolve ''/home/u'' [''/srv/www/''] = posix_resolve ''/home/u'' [''/srv/www'']"
    by code_simp
  show ?thesis
    using showUp_false_iff_root [OF c h si pl, of "''/srv/www/''", THEN conjunct2] si e
    by simp
qed

section \<open>The order of the file list\<close>

lemma dir_number_isDir: "dir_number x = (if isDir x then 1 else 0)"
  by (simp add: dir_number_def isDir_def split: option.splits)

lemma fileSort_rank:
  "fileSort e a b =
     (if rank a = 0 \<or> rank b = 0 then
        (if rank a = rank b then 0 else if rank a = 0 then - 1 else 1)
      else if rank a < rank b then - 1
      else if rank b < rank a then 1
      else localeCompare e (toLocaleLowerCase e (name a)) (toLocaleLowerCase e (name b)))"
  by (auto simp: fileSort_def rank_def dir_number_isDir Let_def)


lemma consistent_refl:
  assumes "consistent_compare cmp"
  shows "cmp a a = 0"
proof -
  have "(cmp a a < 0) = (0 < cmp a a)"
    using assms unfolding consistent_compare_def by blast
  then show ?thesis by auto
qed

lemma consistent_sym:
  assumes "consistent_compare cmp"
  shows "(cmp a b = 0) = (cmp b a = 0)"
proof -
  have "(cmp a b < 0) = (0 < cmp b a)" "(cmp b a < 0) = (0 < cmp a b)"
    using assms unfolding consistent_compare_def by blast+
  then show ?thesis by auto
qed

lemma fileSort_consistent:
  assumes "consistent_compare (localeCompare e)"
  shows "consistent_compare (fileSort e)"
proof -
  let ?c = "\<lambda>x y. localeCompare e (toLocaleLowerCase e (name x)) (toLocaleLowerCase e (name y))"
  have anti: "(?c a b < 0) = (0 < ?c b a)" for a b
    using assms unfolding consistent_compare_def by blast
  have trans: "?c a b \<le> 0 \<Longrightarrow> ?c b c \<le> 0 \<Longrightarrow> ?c a c \<le> 0" for a b c
    using assms unfolding consistent_compare_def by blast
  have 1: "(fileSort e a b < 0) = (0 < fileSort e b a)" for a b
    unfolding fileSort_rank using anti [of a b] by auto
  have le: "(fileSort e a b \<le> 0)
              = (rank a < rank b \<or> (rank a = rank b \<and> (rank a = 0 \<or> ?c a b \<le> 0)))" for a b
    unfolding fileSort_rank by auto
  have 2: "fileSort e a c \<le> 0" if "fileSort e a b \<le> 0" "fileSort e b c \<le> 0" for a b c
    using that trans [of a b c] unfolding le by auto
  show ?thesis
    unfolding consistent_compare_def using 1 2 by blast
qed

lemma insert_by_mset: "mset (insert_by cmp x ys) = add_mset x (mset ys)"
  by (induction ys) auto

lemma sort_by_mset: "mset (sort_by cmp xs) = mset xs"
  by (induction xs) (auto simp: sort_by_def insert_by_mset)

lemma insert_by_set: "set (insert_by cmp x ys) = insert x (set ys)"
  by (induction ys) auto

lemma insert_by_sorted:
  assumes "consistent_compare cmp" and "sorted_wrt (\<lambda>a b. cmp a b \<le> 0) ys"
  shows "sorted_wrt (\<lambda>a b. cmp a b \<le> 0) (insert_by cmp x ys)"
  using assms(2)
proof (induction ys)
  case Nil
  then show ?case by simp
next
  case (Cons y ys)
  have anti: "(cmp a b < 0) = (0 < cmp b a)" for a b
    using assms(1) unfolding consistent_compare_def by blast
  have trans: "cmp a b \<le> 0 \<Longrightarrow> cmp b c \<le> 0 \<Longrightarrow> cmp a c \<le> 0" for a b c
    using assms(1) unfolding consistent_compare_def by blast
  show ?case
  proof (cases "cmp x y \<le> 0")
    case True
    with Cons.prems trans [of x y] show ?thesis by auto
  next
    case False
    then have "cmp y x \<le> 0" using anti [of y x] by simp
    with False Cons show ?thesis by (auto simp: insert_by_set)
  qed
qed

lemma sort_by_sorted:
  assumes "consistent_compare cmp"
  shows "sorted_wrt (\<lambda>a b. cmp a b \<le> 0) (sort_by cmp xs)"
  by (induction xs) (auto simp: sort_by_def intro: insert_by_sorted [OF assms])

lemma filter_insert_by_neg:
  "\<not> P x \<Longrightarrow> filter P (insert_by cmp x ys) = filter P ys"
  by (induction ys) auto

lemma filter_insert_by_pos:
  assumes "P x" and "\<And>y. P y \<Longrightarrow> cmp x y \<le> 0"
  shows "filter P (insert_by cmp x ys) = x # filter P ys"
  using assms by (induction ys) auto

lemma sort_by_stable:
  assumes "consistent_compare cmp"
  shows "filter (\<lambda>y. cmp k y = 0) (sort_by cmp xs) = filter (\<lambda>y. cmp k y = 0) xs"
proof (induction xs)
  case Nil
  then show ?case by (simp add: sort_by_def)
next
  case (Cons x xs)
  have trans: "cmp a b \<le> 0 \<Longrightarrow> cmp b c \<le> 0 \<Longrightarrow> cmp a c \<le> 0" for a b c
    using assms unfolding consistent_compare_def by blast
  show ?case
  proof (cases "cmp k x = 0")
    case False
    with Cons show ?thesis
      by (simp add: sort_by_def filter_insert_by_neg)
  next
    case True
    then have xk: "cmp x k \<le> 0" using consistent_sym [OF assms, of k x] by simp
    have "cmp x y \<le> 0" if "cmp k y = 0" for y
      using trans [OF xk, of y] that by simp
    with True Cons show ?thesis
      by (simp add: sort_by_def filter_insert_by_pos [where P = "\<lambda>y. cmp k y = 0"])
  qed
qed

lemma byte_compare_consistent: "consistent_compare byte_compare"
  unfolding consistent_compare_def byte_compare_def by (auto split: if_splits)

text \<open>
  Claim C4. With a consistent \<open>localeCompare\<close>, \<open>fileSort\<close> is a total preorder
  (reflexive, total, transitive); the list \<open>html\<close> sorts with it is ordered by it, is a
  rearrangement of the input, and entries that compare equal keep their relative
  order. An entry named \<open>..\<close> comes before every other entry and two of them compare
  equal; among the others a directory comes before an entry that is not one (an
  entry without metadata is not one); entries of the same group are compared by
  \<open>localeCompare\<close> on their names in lower case.
\<close>

theorem fileSort_total_preorder_and_stable:
  assumes "consistent_compare (localeCompare e)"
  shows "fileSort e a a = 0
       \<and> (fileSort e a b \<le> 0 \<or> fileSort e b a \<le> 0)
       \<and> sorted_wrt (\<lambda>x y. fileSort e x y \<le> 0) (sort_by (fileSort e) xs)
       \<and> mset (sort_by (fileSort e) xs) = mset xs
       \<and> filter (\<lambda>y. fileSort e k y = 0) (sort_by (fileSort e) xs)
           = filter (\<lambda>y. fileSort e k y = 0) xs
       \<and> (fileSort e a b \<le> 0 \<and> fileSort e b c \<le> 0 \<longrightarrow> fileSort e a c \<le> 0)
       \<and> (name a = ''..'' \<and> name b = ''..'' \<longrightarrow> fileSort e a b = 0)
       \<and> (name a = ''..'' \<and> name b \<noteq> ''..'' \<longrightarrow> fileSort e a b < 0 \<and> 0 < fileSort e b a)
       \<and> (name a \<noteq> ''..'' \<and> name b \<noteq> ''..'' \<and> isDir a \<and> \<not> isDir b
            \<longrightarrow> fileSort e a b < 0 \<and> 0 < fileSort e b a)
       \<and> (stat a = None \<longrightarrow> \<not> isDir a)
       \<and> (name a \<noteq> ''..'' \<and> name b \<noteq> ''..'' \<and> isDir a = isDir b
            \<longrightarrow> fileSort e a b
                  = localeCompare e (toLocaleLowerCase e (name a))
                      (toLocaleLowerCase e (name b)))"
proof -
  note fc = fileSort_consistent [OF assms]
  have anti: "(fileSort e x y < 0) = (0 < fileSort e y x)" for x y
    using fc unfolding consistent_compare_def by blast
  have trans: "fileSort e a b \<le> 0 \<and> fileSort e b c \<le> 0 \<longrightarrow> fileSort e a c \<le> 0"
    using fc unfolding consistent_compare_def by blast
  have total: "fileSort e a b \<le> 0 \<or> fileSort e b a \<le> 0"
    using anti [of b a] by auto
  have p1: "name a = ''..'' \<and> name b = ''..'' \<longrightarrow> fileSort e a b = 0"
    by (simp add: fileSort_def)
  have p2: "name a = ''..'' \<and> name b \<noteq> ''..'' \<longrightarrow> fileSort e a b < 0 \<and> 0 < fileSort e b a"
    by (auto simp: fileSort_def)
  have p3: "name a \<noteq> ''..'' \<and> name b \<noteq> ''..'' \<and> isDir a \<and> \<not> isDir b
              \<longrightarrow> fileSort e a b < 0 \<and> 0 < fileSort e b a"
    by (simp add: fileSort_def dir_number_isDir)
  have p4: "stat a = None \<longrightarrow> \<not> isDir a"
    by (simp add: isDir_def)
  have p5: "name a \<noteq> ''..'' \<and> name b \<noteq> ''..'' \<and> isDir a = isDir b
              \<longrightarrow> fileSort e a b
                    = localeCompare e (toLocaleLowerCase e (name a))
                        (toLocaleLowerCase e (name b))"
    by (simp add: fileSort_def dir_number_isDir)
  show ?thesis
    using consistent_refl [OF fc, of a] total sort_by_sorted [OF fc, of xs]
      sort_by_mset [of "fileSort e" xs] sort_by_stable [OF fc, of k xs] trans p1 p2 p3 p4 p5
    by blast
qed

theorem fileSort_total_preorder_and_stable_witness:
  "consistent_compare (localeCompare sample_env)
   \<and> sorted_wrt (\<lambda>x y. fileSort sample_env x y \<le> 0)
        (sort_by (fileSort sample_env) sample_entries)
   \<and> sort_by (fileSort sample_env) sample_entries
       = [\<lparr>name = ''..'', stat = Some dir_stats\<rparr>,
          \<lparr>name = ''img'', stat = Some dir_stats\<rparr>,
          \<lparr>name = ''gone'', stat = None\<rparr>,
          \<lparr>name = ''notes.txt'', stat = Some (file_stats 12)\<rparr>,
          \<lparr>name = ''notes.txt'', stat = Some (file_stats 99)\<rparr>]"
proof -
  have c: "consistent_compare (localeCompare sample_env)"
    by (simp add: sample_env_def byte_compare_consistent)
  have s: "sort_by (fileSort sample_env) sample_entries
             = [\<lparr>name = ''..'', stat = Some dir_stats\<rparr>,
                \<lparr>name = ''img'', stat = Some dir_stats\<rparr>,
                \<lparr>name = ''gone'', stat = None\<rparr>,
                \<lparr>name = ''notes.txt'', stat = Some (file_stats 12)\<rparr>,
                \<lparr>name = ''notes.txt'', stat = Some (file_stats 99)\<rparr>]"
    by code_simp
  from fileSort_total_preorder_and_stable [OF c, where xs = sample_entries]
  have "sorted_wrt (\<lambda>x y. fileSort sample_env x y \<le> 0)
          (sort_by (fileSort sample_env) sample_entries)"
    by blast
  with c s show ?thesis by blast
qed

section \<open>The batch of lookups\<close>

lemma array_get_set:
  "array_get (array_set xs i v) j = (if j = i then Some v else array_get xs j)"
  by (auto simp: array_get_def array_set_def nth_append nth_Cons')

lemma length_array_set: "length (array_set xs i v) = max (length xs) (Suc i)"
  by (auto simp: array_set_def)

lemma batch_next_start:
  "index s < total_fns \<Longrightarrow>
     batch_next total_fns s
       = s\<lparr>index := index s + 1, inflight := inflight s @ [index s],
            started := started s @ [index s]\<rparr>"
  by (simp add: batch_next_def Let_def)

lemma batch_next_idle:
  "\<not> index s < total_fns \<Longrightarrow> batch_next total_fns s = s\<lparr>index := index s + 1\<rparr>"
  by (simp add: batch_next_def Let_def)

lemma callback_finished:
  "finished s \<Longrightarrow> batch_callback fns i s = s\<lparr>inflight := removeAll i (inflight s)\<rparr>"
  by (simp add: batch_callback_def Let_def)

lemma callback_error:
  "\<not> finished s \<Longrightarrow> fns ! i = Inl err \<Longrightarrow>
     batch_callback fns i s
       = s\<lparr>inflight := removeAll i (inflight s), finished := True,
            calls := calls s @ [Inl err]\<rparr>"
  by (simp add: batch_callback_def Let_def)

lemma callback_last:
  "\<not> finished s \<Longrightarrow> fns ! i = Inr r \<Longrightarrow> pending s - 1 = 0 \<Longrightarrow>
     batch_callback fns i s
       = s\<lparr>inflight := removeAll i (inflight s), results := array_set (results s) i r,
            pending := 0, calls := calls s @ [Inr (array_set (results s) i r)]\<rparr>"
  by (simp add: batch_callback_def Let_def)

lemma callback_start:
  "\<not> finished s \<Longrightarrow> fns ! i = Inr r \<Longrightarrow> pending s - 1 \<noteq> 0 \<Longrightarrow> index s < length fns \<Longrightarrow>
     batch_callback fns i s
       = s\<lparr>inflight := removeAll i (inflight s) @ [index s],
            results := array_set (results s) i r, pending := pending s - 1,
            index := index s + 1, started := started s @ [index s]\<rparr>"
  by (simp add: batch_callback_def batch_next_def Let_def)

lemma callback_idle:
  "\<not> finished s \<Longrightarrow> fns ! i = Inr r \<Longrightarrow> pending s - 1 \<noteq> 0 \<Longrightarrow> \<not> index s < length fns \<Longrightarrow>
     batch_callback fns i s
       = s\<lparr>inflight := removeAll i (inflight s), results := array_set (results s) i r,
            pending := pending s - 1, index := index s + 1\<rparr>"
  by (simp add: batch_callback_def batch_next_def Let_def)

lemma length_removeAll_distinct:
  "distinct xs \<Longrightarrow> i \<in> set xs \<Longrightarrow> length (removeAll i xs) = length xs - 1"
  by (simp add: distinct_remove1_removeAll [symmetric] length_remove1)


lemma batch_invD:
  assumes "batch_inv fns n s"
  shows "started s = [0..<min (index s) (length fns)]"
    and "distinct (inflight s)"
    and "set (inflight s) \<subseteq> set (started s)"
    and "length (inflight s) \<le> n"
    and "length (calls s) \<le> 1"
    and "finished s \<Longrightarrow> \<exists>i err. i < length fns \<and> fns ! i = Inl err \<and> calls s = [Inl err]"
  using assms unfolding batch_inv_def by blast+

lemma batch_inv_runningD:
  assumes "batch_inv fns n s" and "\<not> finished s"
  shows "\<And>j. j \<in> set (started s) \<Longrightarrow> j \<notin> set (inflight s)
            \<Longrightarrow> \<exists>r. fns ! j = Inr r \<and> array_get (results s) j = Some r"
    and "\<And>j. \<not> (j \<in> set (started s) \<and> j \<notin> set (inflight s))
            \<Longrightarrow> array_get (results s) j = None"
    and "pending s + length (started s) = length fns + length (inflight s)"
    and "min n (length fns) \<le> index s"
    and "index s < length fns \<Longrightarrow> length (inflight s) = min n (length fns)"
    and "length (results s) \<le> length fns"
    and "if pending s = 0 then calls s = [Inr (results s)] else calls s = []"
  using assms unfolding batch_inv_def by blast+

lemma batch_invI:
  assumes "started s = [0..<min (index s) (length fns)]"
    and "distinct (inflight s)"
    and "set (inflight s) \<subseteq> set (started s)"
    and "length (inflight s) \<le> n"
    and "length (calls s) \<le> 1"
    and "finished s \<Longrightarrow> \<exists>i err. i < length fns \<and> fns ! i = Inl err \<and> calls s = [Inl err]"
    and "\<And>j. \<not> finished s \<Longrightarrow> j \<in> set (started s) \<Longrightarrow> j \<notin> set (inflight s)
            \<Longrightarrow> \<exists>r. fns ! j = Inr r \<and> array_get (results s) j = Some r"
    and "\<And>j. \<not> finished s \<Longrightarrow> \<not> (j \<in> set (started s) \<and> j \<notin> set (inflight s))
            \<Longrightarrow> array_get (results s) j = None"
    and "\<not> finished s \<Longrightarrow> pending s + length (started s) = length fns + length (inflight s)"
    and "\<not> finished s \<Longrightarrow> min n (length fns) \<le> index s"
    and "\<not> finished s \<Longrightarrow> index s < length fns \<Longrightarrow> length (inflight s) = min n (length fns)"
    and "\<not> finished s \<Longrightarrow> length (results s) \<le> length fns"
    and "\<not> finished s \<Longrightarrow> if pending s = 0 then calls s = [Inr (results s)] else calls s = []"
  shows "batch_inv fns n s"
  unfolding batch_inv_def using assms by blast

lemma batch_inv_callback:
  assumes inv: "batch_inv fns n s" and i: "i \<in> set (inflight s)"
  shows "batch_inv fns n (batch_callback fns i s)"
proof -
  let ?N = "length fns"
  note st = batch_invD(1) [OF inv] and di = batch_invD(2) [OF inv]
    and sub = batch_invD(3) [OF inv] and bound = batch_invD(4) [OF inv]
    and one = batch_invD(5) [OF inv]
  from i sub st have iN: "i < ?N" and ii: "i < index s" by auto
  have len: "length (removeAll i (inflight s)) = length (inflight s) - 1"
    by (rule length_removeAll_distinct [OF di i])
  have pos: "0 < length (inflight s)"
    using i by (rule length_pos_if_in_set)
  have di': "distinct (removeAll i (inflight s))"
    using di by (simp add: distinct_removeAll)
  have sub': "set (removeAll i (inflight s)) \<subseteq> set (started s)"
    using sub by auto
  have bound': "length (removeAll i (inflight s)) \<le> n"
    using len bound by simp
  show ?thesis
  proof (cases "finished s")
    case True
    show ?thesis
      unfolding callback_finished [OF True]
      by (rule batch_invI) (use st di' sub' bound' one batch_invD(6) [OF inv True] True in simp_all)
  next
    case False
    note nf = this
    note done_ok = batch_inv_runningD(1) [OF inv nf]
      and rest_none = batch_inv_runningD(2) [OF inv nf]
      and pend = batch_inv_runningD(3) [OF inv nf]
      and idx = batch_inv_runningD(4) [OF inv nf]
      and full = batch_inv_runningD(5) [OF inv nf]
      and lres = batch_inv_runningD(6) [OF inv nf]
      and cl = batch_inv_runningD(7) [OF inv nf]
    have ls: "length (started s) \<le> ?N" using st by simp
    from pend ls pos have pp: "0 < pending s" by linarith
    with cl have c0: "calls s = []" by simp
    show ?thesis
    proof (cases "fns ! i")
      case (Inl err)
      have "\<exists>j e. j < ?N \<and> fns ! j = Inl e \<and> calls s @ [Inl err] = [Inl e]"
        using iN Inl c0 by auto
      then show ?thesis
        unfolding callback_error [OF nf Inl]
        by (rule_tac batch_invI) (use st di' sub' bound' c0 in simp_all)
    next
      case (Inr r)
      have lres': "length (array_set (results s) i r) \<le> ?N"
        using lres iN by (simp add: length_array_set)
      have done_ok': "\<exists>r'. fns ! j = Inr r' \<and> array_get (array_set (results s) i r) j = Some r'"
        if "j \<in> set (started s)" "j \<notin> set (removeAll i (inflight s))" for j
        using that done_ok [of j] Inr by (cases "j = i") (auto simp: array_get_set)
      have rest_none': "array_get (array_set (results s) i r) j = None"
        if "\<not> (j \<in> set (started s) \<and> j \<notin> set (removeAll i (inflight s)))" for j
        using that rest_none [of j] i sub by (cases "j = i") (auto simp: array_get_set)
      show ?thesis
      proof (cases "pending s - 1 = 0")
        case True
        then have p1: "pending s = 1" using pp by simp
        with pend len pos ls have full_started: "length (started s) = ?N"
          and single: "length (inflight s) = 1" by linarith+
        from full_started st have noidx: "\<not> index s < ?N" by auto
        have pend': "0 + length (started s) = ?N + length (removeAll i (inflight s))"
          using full_started single len by simp
        show ?thesis
          unfolding callback_last [OF nf Inr True]
          apply (rule batch_invI)
          subgoal using st by simp
          subgoal using di' by simp
          subgoal using sub' by simp
          subgoal using bound' by simp
          subgoal using c0 by simp
          subgoal using nf by simp
          subgoal for j using done_ok' [of j] by simp
          subgoal for j using rest_none' [of j] by simp
          subgoal using pend' by simp
          subgoal using idx by simp
          subgoal using noidx by simp
          subgoal using lres' by simp
          subgoal using c0 by simp
          done
      next
        case False
        note more = this
        have pend1: "pending s - 1 + length (started s) + 1 = ?N + length (inflight s)"
          using pend pp by simp
        have pnz: "pending s - 1 \<noteq> 0" by (rule more)
        show ?thesis
        proof (cases "index s < ?N")
          case True
          have new: "index s \<notin> set (started s)" "index s \<notin> set (inflight s)"
            using st sub True by auto
          have st': "started s @ [index s] = [0..<min (index s + 1) ?N]"
            using st True by (simp add: min_def)
          have a: "\<exists>r'. fns ! j = Inr r' \<and> array_get (array_set (results s) i r) j = Some r'"
            if "j \<in> set (started s @ [index s])"
               "j \<notin> set (removeAll i (inflight s) @ [index s])" for j
            using that done_ok' [of j] by auto
          have b: "array_get (array_set (results s) i r) j = None"
            if "\<not> (j \<in> set (started s @ [index s])
                   \<and> j \<notin> set (removeAll i (inflight s) @ [index s]))" for j
            using that rest_none' [of j] new by (cases "j = index s") auto
          have inf: "length (removeAll i (inflight s) @ [index s]) = length (inflight s)"
            using len pos by simp
          have dd: "distinct (removeAll i (inflight s) @ [index s])"
            using di' new by simp
          have ss: "set (removeAll i (inflight s) @ [index s]) \<subseteq> set (started s @ [index s])"
            using sub by auto
          have pend': "pending s - 1 + length (started s @ [index s])
                         = ?N + length (removeAll i (inflight s) @ [index s])"
            using pend1 inf by simp
          have idx': "min n ?N \<le> index s + 1" using idx by simp
          have bound'': "length (removeAll i (inflight s) @ [index s]) \<le> n"
            using inf bound by simp
          have full': "length (removeAll i (inflight s) @ [index s]) = min n ?N"
            using inf full [OF True] by simp
          show ?thesis
            unfolding callback_start [OF nf Inr more True]
            apply (rule batch_invI)
            subgoal using st' by simp
            subgoal using dd by simp
            subgoal using ss by simp
            subgoal using bound'' by simp
            subgoal using c0 by simp
            subgoal using nf by simp
            subgoal for j using a [of j] by simp
            subgoal for j using b [of j] by simp
            subgoal using pend' by simp
            subgoal using idx' by simp
            subgoal using full' by simp
            subgoal using lres' by simp
            subgoal using c0 pnz by simp
            done
        next
          case False
          have pend': "pending s - 1 + length (started s)
                         = ?N + length (removeAll i (inflight s))"
            using pend1 len pos by linarith
          have st': "started s = [0..<min (index s + 1) ?N]"
            using st False by (simp add: min_def)
          have idx': "min n ?N \<le> index s + 1" using idx by simp
          show ?thesis
            unfolding callback_idle [OF nf Inr more False]
            apply (rule batch_invI)
            subgoal using st' by simp
            subgoal using di' by simp
            subgoal using sub' by simp
            subgoal using bound' by simp
            subgoal using c0 by simp
            subgoal using nf by simp
            subgoal for j using done_ok' [of j] by simp
            subgoal for j using rest_none' [of j] by simp
            subgoal using pend' by simp
            subgoal using idx' by simp
            subgoal using False by simp
            subgoal using lres' by simp
            subgoal using c0 pnz by simp
            done
        qed
      qed
    qed
  qed
qed

lemma funpow_batch_next:
  assumes "k \<le> total_fns" and "index s = 0" and "inflight s = []" and "started s = []"
  shows "(batch_next total_fns ^^ k) s
           = s\<lparr>index := k, inflight := [0..<k], started := [0..<k]\<rparr>"
  using assms(1)
proof (induction k)
  case 0
  then show ?case using assms(2-4) by simp
next
  case (Suc k)
  then have k: "k < total_fns" and IH: "(batch_next total_fns ^^ k) s
      = s\<lparr>index := k, inflight := [0..<k], started := [0..<k]\<rparr>" by simp_all
  show ?case
    by (simp add: IH batch_next_start k)
qed

lemma batch_end_state:
  "fns \<noteq> [] \<Longrightarrow>
     batch_end n fns
       = \<lparr>index = min (length fns) n, pending = length fns, results = [], finished = False,
          inflight = [0..<min (length fns) n], started = [0..<min (length fns) n],
          calls = []\<rparr>"
  by (simp add: batch_end_def Let_def funpow_batch_next)

lemma batch_inv_end: "batch_inv fns n (batch_end n fns)"
proof (cases "fns = []")
  case True
  then show ?thesis
    by (simp add: batch_end_def batch_inv_def array_get_def)
next
  case False
  show ?thesis
    unfolding batch_end_state [OF False]
    by (rule batch_invI) (use False in \<open>auto simp: array_get_def min_def\<close>)
qed

lemma batch_inv_run:
  "batch_inv fns n s \<Longrightarrow> batch_inv fns n (batch_run fns order s)"
  by (induction order arbitrary: s) (auto intro: batch_inv_callback)

text \<open>What the final callback has received once no lookup is in flight.\<close>

lemma batch_quiescent:
  assumes inv: "batch_inv fns n s" and n: "0 < n" and q: "inflight s = []"
  shows "if finished s
         then \<exists>i err. i < length fns \<and> fns ! i = Inl err \<and> calls s = [Inl err]
         else (\<forall>i < length fns. \<exists>r. fns ! i = Inr r)
              \<and> calls s = [Inr (map (\<lambda>f. case f of Inr r \<Rightarrow> Some r | Inl _ \<Rightarrow> None) fns)]"
proof (cases "finished s")
  case True
  with batch_invD(6) [OF inv True] show ?thesis by simp
next
  case False
  note nf = this
  let ?N = "length fns"
  note st = batch_invD(1) [OF inv]
  note done_ok = batch_inv_runningD(1) [OF inv nf]
    and rest_none = batch_inv_runningD(2) [OF inv nf]
    and pend = batch_inv_runningD(3) [OF inv nf]
    and full = batch_inv_runningD(5) [OF inv nf]
    and lres = batch_inv_runningD(6) [OF inv nf]
    and cl = batch_inv_runningD(7) [OF inv nf]
  have all: "\<not> index s < ?N"
  proof
    assume "index s < ?N"
    from full [OF this] q n \<open>index s < ?N\<close> show False
      by (simp add: min_def split: if_splits)
  qed
  with st have st': "started s = [0..<?N]" by (simp add: min_def)
  with pend q have "pending s = 0" by simp
  with cl have c: "calls s = [Inr (results s)]" by simp
  have ok: "\<exists>r. fns ! i = Inr r \<and> array_get (results s) i = Some r" if "i < ?N" for i
    using done_ok [of i] that st' q by simp
  have lr: "length (results s) = ?N"
  proof (cases "?N = 0")
    case True
    with lres show ?thesis by simp
  next
    case False
    then have "?N - 1 < ?N" by simp
    from ok [OF this] have "array_get (results s) (?N - 1) \<noteq> None" by auto
    then have "?N - 1 < length (results s)"
      by (auto simp: array_get_def split: if_splits)
    with lres show ?thesis by simp
  qed
  have "results s = map (\<lambda>f. case f of Inr r \<Rightarrow> Some r | Inl _ \<Rightarrow> None) fns"
  proof (rule nth_equalityI)
    show "length (results s) = length (map (\<lambda>f. case f of Inr r \<Rightarrow> Some r | Inl _ \<Rightarrow> None) fns)"
      using lr by simp
  next
    fix i assume "i < length (results s)"
    with lr have i: "i < ?N" by simp
    from ok [OF i] obtain r where "fns ! i = Inr r" "array_get (results s) i = Some r"
      by blast
    with i lr show "results s ! i = map (\<lambda>f. case f of Inr r \<Rightarrow> Some r | Inl _ \<Rightarrow> None) fns ! i"
      by (simp add: array_get_def)
  qed
  with c ok nf show ?thesis by auto
qed

text \<open>Every callback takes the batch closer to rest.\<close>

lemma batch_measure_callback:
  assumes inv: "batch_inv fns n s" and i: "i \<in> set (inflight s)"
  shows "batch_measure fns (batch_callback fns i s) < batch_measure fns s"
proof -
  note di = batch_invD(2) [OF inv]
  have len: "length (removeAll i (inflight s)) = length (inflight s) - 1"
    by (rule length_removeAll_distinct [OF di i])
  have pos: "0 < length (inflight s)"
    using i by (rule length_pos_if_in_set)
  show ?thesis
  proof (cases "finished s")
    case True
    show ?thesis
      unfolding callback_finished [OF True] batch_measure_def using len pos by (simp del: length_greater_0_conv)
  next
    case False
    note nf = this
    show ?thesis
    proof (cases "fns ! i")
      case (Inl err)
      show ?thesis
        unfolding callback_error [OF nf Inl] batch_measure_def using len pos by (simp del: length_greater_0_conv)
    next
      case (Inr r)
      show ?thesis
      proof (cases "pending s - 1 = 0")
        case True
        show ?thesis
          unfolding callback_last [OF nf Inr True] batch_measure_def using len pos by (simp del: length_greater_0_conv)
      next
        case False
        note more = this
        show ?thesis
        proof (cases "index s < length fns")
          case True
          show ?thesis
            unfolding callback_start [OF nf Inr more True] batch_measure_def
            using len pos True by (simp del: length_greater_0_conv add: min_def)
        next
          case False
          show ?thesis
            unfolding callback_idle [OF nf Inr more False] batch_measure_def
            using len pos False by (simp del: length_greater_0_conv add: min_def)
        qed
      qed
    qed
  qed
qed

lemma fifo_order_rest:
  assumes "batch_inv fns n s" and "batch_measure fns s \<le> fuel"
  shows "inflight (batch_run fns (fifo_order fns fuel s) s) = []"
  using assms
proof (induction fuel arbitrary: s)
  case 0
  then show ?case by (simp add: batch_measure_def)
next
  case (Suc fuel)
  show ?case
  proof (cases "inflight s")
    case Nil
    then show ?thesis by simp
  next
    case (Cons i rest)
    then have i: "i \<in> set (inflight s)" by simp
    have m: "batch_measure fns (batch_callback fns i s) \<le> fuel"
      using batch_measure_callback [OF Suc.prems(1) i] Suc.prems(2) by simp
    from Suc.IH [OF batch_inv_callback [OF Suc.prems(1) i] m] Cons
    show ?thesis by simp
  qed
qed

lemma batch_measure_end: "batch_measure fns (batch_end n fns) \<le> 2 * length fns"
proof (cases "fns = []")
  case True
  then show ?thesis by (simp add: batch_end_def batch_measure_def)
next
  case False
  show ?thesis
    unfolding batch_end_state [OF False] batch_measure_def by simp
qed

section \<open>The results of statFiles\<close>

lemma stat_fn_cases:
  "stat_fn lib fs dir file
     = (if lookup_fails lib fs dir file
        then (case fs_stat fs (join lib [dir, file]) of Inl err \<Rightarrow> Inl err | Inr st \<Rightarrow> Inr None)
        else Inr (metadata lib fs dir file))"
  by (auto simp: stat_fn_def lookup_fails_def metadata_def split: sum.splits)

lemma stat_fn_Inl:
  "stat_fn lib fs dir file = Inl err
     \<Longrightarrow> fs_stat fs (join lib [dir, file]) = Inl err \<and> code err \<noteq> ''ENOENT''"
  by (auto simp: stat_fn_def split: sum.splits if_splits)

lemma stat_fn_Inr:
  "stat_fn lib fs dir file = Inr r
     \<Longrightarrow> r = metadata lib fs dir file \<and> \<not> lookup_fails lib fs dir file"
  by (auto simp: stat_fn_def lookup_fails_def metadata_def split: sum.splits if_splits)

lemma statFiles_inv:
  "batch_inv (stat_fns lib fs dir files) 10 (statFiles_state lib dir files fs order)"
  unfolding statFiles_state_def by (rule batch_inv_run [OF batch_inv_end])

text \<open>A successful final callback is the last event of the batch.\<close>

lemma batch_success_rest:
  assumes inv: "batch_inv fns n s" and c: "calls s = [Inr rs]"
  shows "inflight s = [] \<and> \<not> finished s"
proof -
  have nf: "\<not> finished s"
    using batch_invD(6) [OF inv] c by auto
  note st = batch_invD(1) [OF inv]
    and pend = batch_inv_runningD(3) [OF inv nf]
    and cl = batch_inv_runningD(7) [OF inv nf]
  from cl c have "pending s = 0" by (auto split: if_splits)
  moreover have "length (started s) \<le> length fns" using st by simp
  ultimately have "length (inflight s) = 0" using pend by linarith
  with nf show ?thesis by simp
qed

lemma batch_error_finished:
  assumes inv: "batch_inv fns n s" and c: "calls s = [Inl err]"
  shows "\<exists>i < length fns. fns ! i = Inl err"
proof (cases "finished s")
  case True
  from batch_invD(6) [OF inv True] c show ?thesis by auto
next
  case False
  from batch_inv_runningD(7) [OF inv False] c show ?thesis
    by (auto split: if_splits)
qed

lemma statFiles_calls:
  "statFiles lib dir files fs order = Some r
     \<longleftrightarrow> calls (statFiles_state lib dir files fs order) = [r]"
proof -
  have "length (calls (statFiles_state lib dir files fs order)) \<le> 1"
    by (rule batch_invD(5) [OF statFiles_inv])
  then show ?thesis
    by (cases "calls (statFiles_state lib dir files fs order)")
       (auto simp: statFiles_def)
qed

text \<open>
  Claim C3. \<open>statFiles\<close> invokes its callback at most once. When every started lookup
  has been answered it has invoked it. A result array has the length of the input
  and holds at position \<open>i\<close> the metadata of name \<open>i\<close>, \<open>null\<close> where the lookup gave
  \<open>ENOENT\<close>, whatever the order of the answers; it is delivered only if no lookup
  failed otherwise. If one did, the callback gets a single error, the error of one
  of the entries. Answering the lookups in the order they were started brings the
  batch to rest.
\<close>

theorem statFiles_positional:
  "length (calls (statFiles_state lib dir files fs order)) \<le> 1
   \<and> (inflight (statFiles_state lib dir files fs order) = []
        \<longrightarrow> (\<exists>r. statFiles lib dir files fs order = Some r))
   \<and> (\<forall>rs. statFiles lib dir files fs order = Some (Inr rs)
        \<longrightarrow> length rs = length files
            \<and> (\<forall>i < length files. rs ! i = Some (metadata lib fs dir (files ! i)))
            \<and> \<not> list_ex (lookup_fails lib fs dir) files)
   \<and> (\<forall>err. statFiles lib dir files fs order = Some (Inl err)
        \<longrightarrow> (\<exists>file \<in> set files.
               fs_stat fs (join lib [dir, file]) = Inl err \<and> code err \<noteq> ''ENOENT''))
   \<and> (inflight (statFiles_state lib dir files fs order) = []
        \<and> list_ex (lookup_fails lib fs dir) files
        \<longrightarrow> (\<exists>err. statFiles lib dir files fs order = Some (Inl err)))
   \<and> (inflight (statFiles_state lib dir files fs order) = []
        \<and> \<not> list_ex (lookup_fails lib fs dir) files
        \<longrightarrow> statFiles lib dir files fs order
              = Some (Inr (map (\<lambda>file. Some (metadata lib fs dir file)) files)))
   \<and> inflight (statFiles_state lib dir files fs
        (fifo_order (stat_fns lib fs dir files) (2 * length files)
           (batch_end 10 (stat_fns lib fs dir files)))) = []"
proof -
  let ?fns = "stat_fns lib fs dir files"
  let ?s = "statFiles_state lib dir files fs order"
  let ?ok = "map (\<lambda>f. case f of Inr r \<Rightarrow> Some r | Inl _ \<Rightarrow> None) ?fns"
  note inv = statFiles_inv [of lib fs dir files order]
  have len: "length ?fns = length files" by (simp add: stat_fns_def)
  have nth: "?fns ! i = stat_fn lib fs dir (files ! i)" if "i < length files" for i
    using that by (simp add: stat_fns_def)
  have fails_iff: "list_ex (lookup_fails lib fs dir) files
                     = (\<exists>i < length files. \<exists>err. ?fns ! i = Inl err)"
  proof
    assume "list_ex (lookup_fails lib fs dir) files"
    then obtain i where i: "i < length files" "lookup_fails lib fs dir (files ! i)"
      by (auto simp: list_ex_iff in_set_conv_nth)
    then have "\<exists>err. ?fns ! i = Inl err"
      by (auto simp: nth stat_fn_def lookup_fails_def split: sum.splits)
    with i show "\<exists>i < length files. \<exists>err. ?fns ! i = Inl err" by blast
  next
    assume "\<exists>i < length files. \<exists>err. ?fns ! i = Inl err"
    then obtain i err where i: "i < length files" "?fns ! i = Inl err" by blast
    then have "lookup_fails lib fs dir (files ! i)"
      using stat_fn_Inl [of lib fs dir "files ! i" err]
      by (simp add: nth lookup_fails_def)
    with i show "list_ex (lookup_fails lib fs dir) files"
      by (auto simp: list_ex_iff)
  qed
  have ok_map: "?ok = map (\<lambda>file. Some (metadata lib fs dir file)) files"
    if "\<not> list_ex (lookup_fails lib fs dir) files"
    using that
    by (auto simp: stat_fns_def list_ex_iff stat_fn_cases)
  have q: "if finished ?s
           then \<exists>i err. i < length ?fns \<and> ?fns ! i = Inl err \<and> calls ?s = [Inl err]
           else (\<forall>i < length ?fns. \<exists>r. ?fns ! i = Inr r) \<and> calls ?s = [Inr ?ok]"
    if "inflight ?s = []"
    by (rule batch_quiescent [OF inv _ that]) simp
  have c1: "length (calls ?s) \<le> 1"
    by (rule batch_invD(5) [OF inv])
  have c2: "inflight ?s = [] \<longrightarrow> (\<exists>r. statFiles lib dir files fs order = Some r)"
    using q by (auto simp: statFiles_calls split: if_splits)
  have c3: "length rs = length files
            \<and> (\<forall>i < length files. rs ! i = Some (metadata lib fs dir (files ! i)))
            \<and> \<not> list_ex (lookup_fails lib fs dir) files"
    if "statFiles lib dir files fs order = Some (Inr rs)" for rs
  proof -
    from that have c: "calls ?s = [Inr rs]" by (simp add: statFiles_calls)
    from batch_success_rest [OF inv c] have r: "inflight ?s = []" "\<not> finished ?s"
      by simp_all
    from q [OF r(1)] r(2) c have all: "\<forall>i < length ?fns. \<exists>r. ?fns ! i = Inr r"
      and rs: "rs = ?ok" by simp_all
    from all have nofail: "\<not> list_ex (lookup_fails lib fs dir) files"
      unfolding fails_iff len by auto
    from rs ok_map [OF nofail] show ?thesis
      using nofail by simp
  qed
  have c4: "\<exists>file \<in> set files.
              fs_stat fs (join lib [dir, file]) = Inl err \<and> code err \<noteq> ''ENOENT''"
    if "statFiles lib dir files fs order = Some (Inl err)" for err
  proof -
    from that have c: "calls ?s = [Inl err]" by (simp add: statFiles_calls)
    from batch_error_finished [OF inv c] obtain i
      where i: "i < length files" "?fns ! i = Inl err"
      unfolding len by blast
    with stat_fn_Inl [of lib fs dir "files ! i" err] show ?thesis
      by (auto simp: nth)
  qed
  have c5: "inflight ?s = [] \<and> list_ex (lookup_fails lib fs dir) files
              \<longrightarrow> (\<exists>err. statFiles lib dir files fs order = Some (Inl err))"
  proof (intro impI, elim conjE)
    assume r: "inflight ?s = []" and fail: "list_ex (lookup_fails lib fs dir) files"
    from fail obtain i err where i: "i < length files" "?fns ! i = Inl err"
      unfolding fails_iff by blast
    have "finished ?s"
    proof (rule ccontr)
      assume "\<not> finished ?s"
      with q [OF r] have "\<forall>i < length ?fns. \<exists>r. ?fns ! i = Inr r" by simp
      with i show False unfolding len by auto
    qed
    with q [OF r] show "\<exists>err. statFiles lib dir files fs order = Some (Inl err)"
      by (auto simp: statFiles_calls)
  qed
  have c6: "inflight ?s = [] \<and> \<not> list_ex (lookup_fails lib fs dir) files
              \<longrightarrow> statFiles lib dir files fs order
                    = Some (Inr (map (\<lambda>file. Some (metadata lib fs dir file)) files))"
  proof (intro impI, elim conjE)
    assume r: "inflight ?s = []" and nofail: "\<not> list_ex (lookup_fails lib fs dir) files"
    have "\<not> finished ?s"
    proof
      assume "finished ?s"
      with q [OF r] have "\<exists>i < length files. \<exists>err. ?fns ! i = Inl err"
        unfolding len by auto
      with nofail show False unfolding fails_iff by simp
    qed
    with q [OF r] have "calls ?s = [Inr ?ok]" by simp
    then show "statFiles lib dir files fs order
                 = Some (Inr (map (\<lambda>file. Some (metadata lib fs dir file)) files))"
      unfolding ok_map [OF nofail] by (simp add: statFiles_calls)
  qed
  have c7: "inflight (statFiles_state lib dir files fs
              (fifo_order ?fns (2 * length files) (batch_end 10 ?fns))) = []"
    unfolding statFiles_state_def
    by (rule fifo_order_rest [OF batch_inv_end]) (use batch_measure_end [of ?fns 10] len in simp)
  from c1 c2 c3 c4 c5 c6 c7 show ?thesis by blast
qed

theorem statFiles_positional_witness:
  "statFiles (posix ''/home/u'') ''/srv/www/docs/'' [''..'', ''img'', ''notes.txt'', ''ghost'']
     sample_fs [2, 0, 3, 1]
     = Some (Inr [Some (Some dir_stats), Some (Some dir_stats), Some (Some (file_stats 12)),
                  Some None])"
proof -
  let ?files = "[''..'', ''img'', ''notes.txt'', ''ghost'']"
  have q: "inflight (statFiles_state (posix ''/home/u'') ''/srv/www/docs/'' ?files sample_fs
             [2, 0, 3, 1]) = []"
    by code_simp
  have f: "\<not> list_ex (lookup_fails (posix ''/home/u'') sample_fs ''/srv/www/docs/'') ?files"
    by code_simp
  have m: "map (\<lambda>file. Some (metadata (posix ''/home/u'') sample_fs ''/srv/www/docs/'' file))
             ?files
           = [Some (Some dir_stats), Some (Some dir_stats), Some (Some (file_stats 12)),
              Some None]"
    by code_simp
  from statFiles_positional [of "posix ''/home/u''" "''/srv/www/docs/''" ?files sample_fs
      "[2, 0, 3, 1]"] q f
  have "statFiles (posix ''/home/u'') ''/srv/www/docs/'' ?files sample_fs [2, 0, 3, 1]
          = Some (Inr (map (\<lambda>file. Some (metadata (posix ''/home/u'') sample_fs
               ''/srv/www/docs/'' file)) ?files))"
    by blast
  then show ?thesis unfolding m .
qed

lemma batch_rest_all_started:
  assumes inv: "batch_inv fns n s" and n: "0 < n" and nf: "\<not> finished s"
    and q: "inflight s = []"
  shows "started s = [0..<length fns]"
proof -
  note st = batch_invD(1) [OF inv] and full = batch_inv_runningD(5) [OF inv nf]
  have "\<not> index s < length fns"
  proof
    assume a: "index s < length fns"
    from full [OF a] q n a show False by (simp add: min_def split: if_splits)
  qed
  with st show ?thesis by (simp add: min_def)
qed

text \<open>
  Claim C6, as the code has it. In every state the batch of \<open>statFiles\<close> can reach, at
  most 10 lookups are in flight; lookups start in the order of the entries, each
  entry at most once; while an entry waits and no failure has ended the batch, all
  10 slots are taken; and when the batch comes to rest without such a failure every
  entry has had its lookup.
\<close>

theorem statFiles_bounded:
  "(let s = statFiles_state lib dir files fs order in
      length (inflight s) \<le> 10
    \<and> distinct (started s)
    \<and> started s = [0..<length (started s)]
    \<and> length (started s) \<le> length files
    \<and> set (inflight s) \<subseteq> set (started s)
    \<and> distinct (inflight s)
    \<and> (\<not> finished s \<and> length (started s) < length files \<longrightarrow> length (inflight s) = 10)
    \<and> (\<not> finished s \<and> inflight s = [] \<longrightarrow> started s = [0..<length files]))"
proof -
  let ?fns = "stat_fns lib fs dir files"
  let ?s = "statFiles_state lib dir files fs order"
  note inv = statFiles_inv [of lib fs dir files order]
  have len: "length ?fns = length files" by (simp add: stat_fns_def)
  note st = batch_invD(1) [OF inv, unfolded len]
  have c1: "length (inflight ?s) \<le> 10" by (rule batch_invD(4) [OF inv])
  have c2: "distinct (started ?s)" by (subst st) simp
  have c3: "started ?s = [0..<length (started ?s)]" by (subst (1 2) st) simp
  have c4: "length (started ?s) \<le> length files" by (subst st) simp
  have c5: "set (inflight ?s) \<subseteq> set (started ?s)" by (rule batch_invD(3) [OF inv])
  have c6: "distinct (inflight ?s)" by (rule batch_invD(2) [OF inv])
  have c7: "length (inflight ?s) = 10"
    if nf: "\<not> finished ?s" and less: "length (started ?s) < length files"
  proof -
    from less have idx: "index ?s < length files"
      by (subst (asm) st) (simp add: min_def split: if_splits)
    from batch_inv_runningD(5) [OF inv nf] idx
    have "length (inflight ?s) = min 10 (length files)" by (simp add: len)
    moreover from batch_inv_runningD(4) [OF inv nf] idx have "10 < length files"
      by (simp add: len min_def split: if_splits)
    ultimately show ?thesis by simp
  qed
  have c8: "started ?s = [0..<length files]" if "\<not> finished ?s" "inflight ?s = []"
    using batch_rest_all_started [OF inv _ that] by (simp add: len)
  from c1 c2 c3 c4 c5 c6 c7 c8 show ?thesis unfolding Let_def by blast
qed

theorem statFiles_bounded_witness:
  "\<not> finished (statFiles_state (posix ''/home/u'') ''/srv/www/'' twelve_files sample_fs [])
   \<and> length (started (statFiles_state (posix ''/home/u'') ''/srv/www/'' twelve_files sample_fs []))
       < length twelve_files
   \<and> length (inflight (statFiles_state (posix ''/home/u'') ''/srv/www/'' twelve_files sample_fs
        [])) = 10"
proof -
  let ?s = "statFiles_state (posix ''/home/u'') ''/srv/www/'' twelve_files sample_fs []"
  have ne: "stat_fns (posix ''/home/u'') sample_fs ''/srv/www/'' twelve_files \<noteq> []"
    by (simp add: stat_fns_def twelve_files_def)
  have l: "length twelve_files = 12"
    by (simp add: twelve_files_def)
  have s: "\<not> finished ?s" "length (started ?s) = 10"
    unfolding statFiles_state_def batch_run.simps batch_end_state [OF ne]
    by (simp_all add: stat_fns_def l)
  from statFiles_bounded [of "posix ''/home/u''" "''/srv/www/''" twelve_files sample_fs "[]"]
  have "\<not> finished ?s \<and> length (started ?s) < length twelve_files
          \<longrightarrow> length (inflight ?s) = 10"
    unfolding Let_def by blast
  with s l show ?thesis by simp
qed

lemma batch_run_step:
  "i \<in> set (inflight s)
     \<Longrightarrow> batch_run fns (i # order) s = batch_run fns order (batch_callback fns i s)"
  by simp

lemma batch_run_finished:
  assumes "finished s"
  shows "finished (batch_run fns order s)
       \<and> started (batch_run fns order s) = started s
       \<and> calls (batch_run fns order s) = calls s
       \<and> set (inflight (batch_run fns order s)) = set (inflight s) - set order"
  using assms
proof (induction order arbitrary: s)
  case Nil
  then show ?case by simp
next
  case (Cons i order)
  show ?case
  proof (cases "i \<in> set (inflight s)")
    case True
    have f: "finished (batch_callback fns i s)"
      by (simp add: callback_finished [OF Cons.prems] Cons.prems)
    from Cons.IH [OF f] True show ?thesis
      by (auto simp: callback_finished [OF Cons.prems])
  next
    case False
    with Cons.IH [OF Cons.prems] show ?thesis by auto
  qed
qed

text \<open>
  Claim C6 as stated fails. Of eleven entries the first cannot be looked up
  (\<open>EACCES\<close>). When the ten lookups that were started have been answered, in the
  order they were started, nothing is in flight, the aggregation has called back with
  that error, and the eleventh entry has had no lookup.
\<close>

theorem aborted_batch_skips_lookup:
  "length crowded_files = 11
   \<and> inflight (statFiles_state (posix ''/home/u'') ''/srv/www/'' crowded_files sample_fs
        [0, 1, 2, 3, 4, 5, 6, 7, 8, 9]) = []
   \<and> 10 \<notin> set (started (statFiles_state (posix ''/home/u'') ''/srv/www/'' crowded_files
        sample_fs [0, 1, 2, 3, 4, 5, 6, 7, 8, 9]))
   \<and> statFiles (posix ''/home/u'') ''/srv/www/'' crowded_files sample_fs
        [0, 1, 2, 3, 4, 5, 6, 7, 8, 9] = Some (Inl eacces)"
proof -
  let ?fns = "stat_fns (posix ''/home/u'') sample_fs ''/srv/www/'' crowded_files"
  let ?s0 = "batch_end 10 ?fns"
  let ?s1 = "batch_callback ?fns 0 ?s0"
  have l: "length crowded_files = 11"
    by (simp add: crowded_files_def)
  have ne: "?fns \<noteq> []"
    by (simp add: stat_fns_def crowded_files_def)
  have f0: "?fns ! 0 = Inl eacces"
    by code_simp
  have s0: "?s0 = \<lparr>index = 10, pending = 11, results = [], finished = False,
                   inflight = [0..<10], started = [0..<10], calls = []\<rparr>"
    unfolding batch_end_state [OF ne] by (simp add: stat_fns_def l)
  have nf: "\<not> finished ?s0"
    by (simp add: s0)
  have s1: "?s1 = ?s0\<lparr>inflight := removeAll 0 (inflight ?s0), finished := True,
                        calls := calls ?s0 @ [Inl eacces]\<rparr>"
    by (rule callback_error [OF nf f0])
  have f1: "finished ?s1"
    unfolding s1 by simp
  have st1: "started ?s1 = [0..<10]"
    unfolding s1 by (simp add: s0)
  have ca1: "calls ?s1 = [Inl eacces]"
    unfolding s1 by (simp add: s0)
  have in1: "set (inflight ?s1) = {1..<10}"
    unfolding s1 by (auto simp: s0)
  define final where "final = batch_run ?fns [1, 2, 3, 4, 5, 6, 7, 8, 9] ?s1"
  have run: "statFiles_state (posix ''/home/u'') ''/srv/www/'' crowded_files sample_fs
               [0, 1, 2, 3, 4, 5, 6, 7, 8, 9] = final"
  proof -
    have "0 \<in> set (inflight ?s0)"
      by (simp add: s0)
    then show ?thesis
      unfolding final_def statFiles_state_def by (rule batch_run_step)
  qed
  note r = batch_run_finished [OF f1, of ?fns "[1, 2, 3, 4, 5, 6, 7, 8, 9]",
      folded final_def]
  have st: "started final = [0..<10]"
    using r unfolding st1 by blast
  have ca: "calls final = [Inl eacces]"
    using r unfolding ca1 by blast
  have "set (inflight final) = {1..<10} - set [1, 2, 3, 4, 5, 6, 7, 8, 9]"
    using r unfolding in1 by blast
  also have "\<dots> = {}"
    by auto
  finally have inf: "inflight final = []"
    by simp
  show ?thesis
    unfolding statFiles_def run using l inf st ca by simp
qed

end
